theory Spec2Isabelle
  imports Complex_Main "HOL-Library.Product_Order"
begin

section \<open>Data model\<close>

text \<open>
  The force class is instantiated for \<open>DIM = 2\<close> (the instantiation the simulations
  of the repository use), so a vector \<open>c_vector<double, DIM>\<close> is a pair. A \<open>double\<close> is
  modelled as a real number: arithmetic is exact, and the one operation of the force
  law that has no real value, a division by zero, is a fault of the model (in IEEE
  arithmetic the quotient is infinite or NaN and poisons the accumulators it reaches).
  Container sizes and indices are natural numbers: the \<open>unsigned\<close> index arithmetic of the
  source does not wrap for containers of fewer than \<open>2^31\<close> entries.
\<close>

type_synonym vec = "real \<times> real"

definition norm_2 :: "vec \<Rightarrow> real" where
  "norm_2 v = sqrt ((fst v)\<^sup>2 + (snd v)\<^sup>2)"

definition scale_vec :: "real \<Rightarrow> vec \<Rightarrow> vec" where
  "scale_vec c v = (c * fst v, c * snd v)"

text \<open>
  Region tags. The constants are members of the class; their values are those the comment
  in the one-time setup gives: 0, 1 and 2 for basal, apical and lateral.
\<close>

definition msBas :: nat where "msBas = 0"
definition msApi :: nat where "msApi = 1"
definition msLat :: nat where "msLat = 2"

text \<open>
  A node object. Elements refer to nodes by pointer; in the model a pointer is an address
  of the node heap of the mesh, and a node's global index is its address.
\<close>

record node =
  location :: vec
  region :: nat
  applied_force :: vec

record element =
  node_ptrs :: "nat list"
  corner_nodes :: "nat list"
  attributes :: "real list"

text \<open>
  The mesh is an external collaborator. Its element vector and node objects are data; the
  membrane index, the periodic displacement \<open>GetVectorFromAtoB\<close> and the average node
  spacing \<open>GetAverageNodeSpacingOfElement(idx, false)\<close> are taken as parameters of the mesh.
  An element's index is its position in the element vector, and no element is marked as
  deleted, so that the element iterator visits the whole vector in order.
\<close>

record mesh =
  elements :: "element list"
  nodes :: "nat \<Rightarrow> node"
  membrane_index :: nat
  vector_from_a_to_b :: "vec \<Rightarrow> vec \<Rightarrow> vec"
  average_node_spacing :: "nat \<Rightarrow> real"

record population =
  mesh_ptr :: nat
  intrinsic_spacing :: real

text \<open>
  The members of the force object, and the memory holding the meshes it can point to.
  \<open>mElementsHaveCorners\<close> and \<open>mReferenceLocationInAttributesVector\<close> are not initialised
  by the constructor, so their initial values are arbitrary.
\<close>

record state =
  mpMesh :: "nat option"
  mSpringConstant :: real
  mRestLengthMultiplier :: real
  mBasementSpringConstantModifier :: real
  mBasementRestLengthModifier :: real
  mElementsHaveCorners :: bool
  mReferenceLocationInAttributesVector :: nat
  heap :: "nat \<Rightarrow> mesh"

text \<open>
  A call ends in one of three ways: it completes, it throws one of the two exceptions of
  the force class (the state it leaves is kept), or it runs into a fault. The faults are
  the places where the source has no defined result: a division by zero; an index outside
  a container (element 0 of a mesh without elements, node 0 of an element without nodes,
  a corner that is not stored or is not a node of the element); a failed \<open>assert\<close>.
\<close>

datatype fault = DivisionByZero | IndexOutOfRange | AssertionFailure

datatype outcome = Completed state | Exception string state | Fault fault

definition corners_message :: string where
  "corners_message = ''All elements must have the same number of corners to use this force class.''"

definition attributes_message :: string where
  "attributes_message = ''All elements must have the same number of attributes to use this force class.''"

section \<open>Node and element operations\<close>

definition SetRegion :: "nat \<Rightarrow> node \<Rightarrow> node" where
  "SetRegion r nd = nd\<lparr>region := r\<rparr>"

definition AddAppliedForceContribution :: "vec \<Rightarrow> node \<Rightarrow> node" where
  "AddAppliedForceContribution f nd = nd\<lparr>applied_force := applied_force nd + f\<rparr>"

definition AddElementAttribute :: "real \<Rightarrow> element \<Rightarrow> element" where
  "AddElementAttribute a e = e\<lparr>attributes := attributes e @ [a]\<rparr>"

definition GetNodeLocation :: "mesh \<Rightarrow> element \<Rightarrow> nat \<Rightarrow> vec" where
  "GetNodeLocation m e i = location (nodes m (node_ptrs e ! i))"

text \<open>
  Modelled from the spec: \<open>GetNodeLocalIndex\<close> of the element class is not part of the
  sources at hand. It gives the position of a node, named by its global index, in the
  element's node order (the first one, should the node occur twice); a node that is not in
  the element has no local index.
\<close>

fun local_index :: "nat list \<Rightarrow> nat \<Rightarrow> nat option" where
  "local_index [] g = None"
| "local_index (p # ps) g = (if p = g then Some 0 else map_option Suc (local_index ps g))"

definition GetNodeLocalIndex :: "element \<Rightarrow> nat \<Rightarrow> nat option" where
  "GetNodeLocalIndex e g = local_index (node_ptrs e) g"

section \<open>The per-timestep force computation\<close>

fun divide_double :: "real \<Rightarrow> real \<Rightarrow> fault + real" where
  "divide_double a b = (if b = 0 then Inl DivisionByZero else Inr (a / b))"

text \<open>The spring constant and the rest length of one element.\<close>

definition spring_constant_of :: "state \<Rightarrow> real \<Rightarrow> mesh \<Rightarrow> nat \<Rightarrow> fault + real" where
  "spring_constant_of s intrinsic_spacing_squared m elem_idx =
     (let spacing_ratio = average_node_spacing m elem_idx in
      case divide_double (mSpringConstant s * intrinsic_spacing_squared)
                         (spacing_ratio * spacing_ratio) of
        Inl x \<Rightarrow> Inl x
      | Inr spring_constant \<Rightarrow>
          if elem_idx = membrane_index m
          then Inr (spring_constant * mBasementSpringConstantModifier s)
          else Inr spring_constant)"

definition rest_length_of :: "state \<Rightarrow> mesh \<Rightarrow> nat \<Rightarrow> real" where
  "rest_length_of s m elem_idx =
     (let spacing_ratio = average_node_spacing m elem_idx;
          rest_length = mRestLengthMultiplier s * spacing_ratio
      in if elem_idx = membrane_index m
         then rest_length * mBasementRestLengthModifier s
         else rest_length)"

text \<open>The force exerted on node \<open>i+1\<close> by node \<open>i\<close>: one iteration of the first node loop.\<close>

definition elastic_force :: "mesh \<Rightarrow> element \<Rightarrow> fault + real \<Rightarrow> real \<Rightarrow> nat \<Rightarrow> fault + vec" where
  "elastic_force m e k rest_length node_idx =
     (let num_nodes = length (node_ptrs e);
          next_idx = (node_idx + 1) mod num_nodes;
          v = vector_from_a_to_b m (GetNodeLocation m e node_idx) (GetNodeLocation m e next_idx);
          normed_dist = norm_2 v
      in case k of
           Inl x \<Rightarrow> Inl x
         | Inr spring_constant \<Rightarrow>
             (case divide_double (spring_constant * (normed_dist - rest_length)) normed_dist of
                Inl x \<Rightarrow> Inl x
              | Inr c \<Rightarrow> Inr (scale_vec c v)))"

fun elastic_force_to_next_node ::
  "mesh \<Rightarrow> element \<Rightarrow> fault + real \<Rightarrow> real \<Rightarrow> nat list \<Rightarrow> fault + vec list" where
  "elastic_force_to_next_node m e k rest_length [] = Inr []"
| "elastic_force_to_next_node m e k rest_length (node_idx # idxs) =
     (case elastic_force m e k rest_length node_idx of
        Inl x \<Rightarrow> Inl x
      | Inr v \<Rightarrow>
          (case elastic_force_to_next_node m e k rest_length idxs of
             Inl x \<Rightarrow> Inl x
           | Inr vs \<Rightarrow> Inr (v # vs)))"

text \<open>The second node loop: the springs adjacent to each node are added to its accumulator.\<close>

fun add_aggregate_forces ::
  "element \<Rightarrow> vec list \<Rightarrow> nat list \<Rightarrow> (nat \<Rightarrow> node) \<Rightarrow> (nat \<Rightarrow> node)" where
  "add_aggregate_forces e forces [] h = h"
| "add_aggregate_forces e forces (node_idx # idxs) h =
     (let num_nodes = length (node_ptrs e);
          prev_idx = (node_idx + num_nodes - 1) mod num_nodes;
          aggregate_force = forces ! node_idx - forces ! prev_idx;
          p = node_ptrs e ! node_idx
      in add_aggregate_forces e forces idxs
           (h(p := AddAppliedForceContribution aggregate_force (h p))))"

text \<open>The body of the element loop.\<close>

definition element_force_contribution :: "state \<Rightarrow> real \<Rightarrow> nat \<Rightarrow> mesh \<Rightarrow> fault + mesh" where
  "element_force_contribution s intrinsic_spacing_squared elem_idx m =
     (let e = elements m ! elem_idx;
          num_nodes = length (node_ptrs e);
          spring_constant = spring_constant_of s intrinsic_spacing_squared m elem_idx;
          rest_length = rest_length_of s m elem_idx
      in case elastic_force_to_next_node m e spring_constant rest_length [0..<num_nodes] of
           Inl x \<Rightarrow> Inl x
         | Inr forces \<Rightarrow>
             Inr (m\<lparr>nodes := add_aggregate_forces e forces [0..<num_nodes] (nodes m)\<rparr>))"

fun element_loop :: "state \<Rightarrow> real \<Rightarrow> nat list \<Rightarrow> mesh \<Rightarrow> fault + mesh" where
  "element_loop s iss [] m = Inr m"
| "element_loop s iss (elem_idx # idxs) m =
     (case element_force_contribution s iss elem_idx m of
        Inl x \<Rightarrow> Inl x
      | Inr m' \<Rightarrow> element_loop s iss idxs m')"

text \<open>
  The part of \<open>AddImmersedBoundaryForceContribution\<close> after the one-time setup. It works on
  the mesh the force object points to, and reads only the intrinsic spacing from the
  population. The pointer is never null here when the part is reached through
  \<open>AddImmersedBoundaryForceContribution\<close>.
\<close>

definition force_computation :: "population \<Rightarrow> state \<Rightarrow> outcome" where
  "force_computation pop s =
     (case mpMesh s of
        None \<Rightarrow> Fault AssertionFailure
      | Some p \<Rightarrow>
          (let intrinsic_spacing_squared = intrinsic_spacing pop * intrinsic_spacing pop;
               m = heap s p
           in case element_loop s intrinsic_spacing_squared [0..<length (elements m)] m of
                Inl x \<Rightarrow> Fault x
              | Inr m' \<Rightarrow> Completed (s\<lparr>heap := (heap s)(p := m')\<rparr>)))"

section \<open>The one-time setup\<close>

fun set_regions :: "element \<Rightarrow> nat \<Rightarrow> nat list \<Rightarrow> (nat \<Rightarrow> node) \<Rightarrow> (nat \<Rightarrow> node)" where
  "set_regions e r [] h = h"
| "set_regions e r (node_idx # idxs) h =
     (let p = node_ptrs e ! node_idx
      in set_regions e r idxs (h(p := SetRegion r (h p))))"

definition corner :: "element \<Rightarrow> nat \<Rightarrow> fault + nat" where
  "corner e k = (if k < length (corner_nodes e) then Inr (corner_nodes e ! k)
                 else Inl IndexOutOfRange)"

definition corner_local_index :: "element \<Rightarrow> nat \<Rightarrow> fault + nat" where
  "corner_local_index e k =
     (case corner e k of
        Inl x \<Rightarrow> Inl x
      | Inr g \<Rightarrow> (case GetNodeLocalIndex e g of
                   None \<Rightarrow> Inl IndexOutOfRange
                 | Some i \<Rightarrow> Inr i))"

text \<open>The body of the element loop of \<open>TagNodeRegions\<close>.\<close>

definition tag_element_regions ::
  "mesh \<Rightarrow> nat \<Rightarrow> (nat \<Rightarrow> node) \<Rightarrow> fault + (nat \<Rightarrow> node)" where
  "tag_element_regions m elem_idx h =
     (let e = elements m ! elem_idx; num_nodes = length (node_ptrs e)
      in if membrane_index m = elem_idx
         then Inr (set_regions e msBas [0..<num_nodes] h)
         else
           (case corner_local_index e 1 of Inl x \<Rightarrow> Inl x | Inr i1 \<Rightarrow>
            case corner_local_index e 0 of Inl x \<Rightarrow> Inl x | Inr i0 \<Rightarrow>
            case corner_local_index e 3 of Inl x \<Rightarrow> Inl x | Inr i3 \<Rightarrow>
            case corner_local_index e 2 of Inl x \<Rightarrow> Inl x | Inr i2 \<Rightarrow>
              (let change_1 = i1;
                   change_2 = i0 + 1;
                   change_3 = i3;
                   change_4 = i2 + 1;
                   h1 = set_regions e msLat [0..<change_1] h;
                   h2 = set_regions e msApi [change_1..<change_2] h1;
                   h3 = set_regions e msLat [change_2..<change_3] h2;
                   h4 = set_regions e msBas [change_3..<change_4] h3
               in Inr (set_regions e msLat [change_4..<num_nodes] h4))))"

fun tag_regions_loop :: "mesh \<Rightarrow> nat list \<Rightarrow> (nat \<Rightarrow> node) \<Rightarrow> fault + (nat \<Rightarrow> node)" where
  "tag_regions_loop m [] h = Inr h"
| "tag_regions_loop m (elem_idx # idxs) h =
     (case tag_element_regions m elem_idx h of
        Inl x \<Rightarrow> Inl x
      | Inr h' \<Rightarrow> tag_regions_loop m idxs h')"

definition TagNodeRegions :: "mesh \<Rightarrow> fault + mesh" where
  "TagNodeRegions m =
     (case tag_regions_loop m [0..<length (elements m)] (nodes m) of
        Inl x \<Rightarrow> Inl x
      | Inr h \<Rightarrow> Inr (m\<lparr>nodes := h\<rparr>))"

text \<open>The body of the element loop of \<open>TagApicalAndBasalLengths\<close>.\<close>

definition tag_element_lengths :: "mesh \<Rightarrow> nat \<Rightarrow> element \<Rightarrow> fault + element" where
  "tag_element_lengths m elem_idx e =
     (if elem_idx = membrane_index m
      then Inr (AddElementAttribute 0 (AddElementAttribute 0 e))
      else
        (let num_nodes = length (node_ptrs e);
             half_way = num_nodes div 2
         in if num_nodes = 0 then Inl IndexOutOfRange
            else
              (let elem_width =
                     \<bar>fst (vector_from_a_to_b m (location (nodes m (node_ptrs e ! 0)))
                                               (location (nodes m (node_ptrs e ! half_way))))\<bar>
               in Inr (AddElementAttribute elem_width (AddElementAttribute elem_width e)))))"

fun tag_lengths_loop :: "mesh \<Rightarrow> nat \<Rightarrow> element list \<Rightarrow> fault + element list" where
  "tag_lengths_loop m elem_idx [] = Inr []"
| "tag_lengths_loop m elem_idx (e # es) =
     (case tag_element_lengths m elem_idx e of
        Inl x \<Rightarrow> Inl x
      | Inr e' \<Rightarrow>
          (case tag_lengths_loop m (Suc elem_idx) es of
             Inl x \<Rightarrow> Inl x
           | Inr es' \<Rightarrow> Inr (e' # es')))"

definition TagApicalAndBasalLengths :: "mesh \<Rightarrow> fault + mesh" where
  "TagApicalAndBasalLengths m =
     (case tag_lengths_loop m 0 (elements m) of
        Inl x \<Rightarrow> Inl x
      | Inr es \<Rightarrow> Inr (m\<lparr>elements := es\<rparr>))"

text \<open>
  The block guarded by \<open>mpMesh == NULL\<close>. The pointer is assigned first; an exception
  leaves the members assigned so far as they are.
\<close>

definition one_time_setup :: "population \<Rightarrow> state \<Rightarrow> outcome" where
  "one_time_setup pop s =
     (let p = mesh_ptr pop;
          s1 = s\<lparr>mpMesh := Some p\<rparr>;
          m = heap s1 p
      in case elements m of
           [] \<Rightarrow> Fault IndexOutOfRange
         | e0 # others \<Rightarrow>
             (let num_corners = length (corner_nodes e0)
              in if \<exists>e \<in> set others. num_corners \<noteq> length (corner_nodes e)
                 then Exception corners_message s1
                 else
                   (let s2 = s1\<lparr>mElementsHaveCorners := (num_corners = 4)\<rparr>
                    in if mElementsHaveCorners s2
                       then
                         (let s3 = s2\<lparr>mReferenceLocationInAttributesVector := length (attributes e0)\<rparr>
                          in if \<exists>e \<in> set others. mReferenceLocationInAttributesVector s3
                                                     \<noteq> length (attributes e)
                             then Exception attributes_message s3
                             else
                               (case TagNodeRegions m of
                                  Inl x \<Rightarrow> Fault x
                                | Inr m1 \<Rightarrow>
                                    (case TagApicalAndBasalLengths m1 of
                                       Inl x \<Rightarrow> Fault x
                                     | Inr m2 \<Rightarrow> Completed (s3\<lparr>heap := (heap s3)(p := m2)\<rparr>))))
                       else Completed s2)))"

definition AddImmersedBoundaryForceContribution :: "population \<Rightarrow> state \<Rightarrow> outcome" where
  "AddImmersedBoundaryForceContribution pop s =
     (if mpMesh s = None
      then (case one_time_setup pop s of
              Completed s' \<Rightarrow> force_computation pop s'
            | Exception msg s' \<Rightarrow> Exception msg s'
            | Fault x \<Rightarrow> Fault x)
      else force_computation pop s)"

text \<open>The two getters of the baseline lengths.\<close>

definition GetApicalLengthForElement :: "state \<Rightarrow> nat \<Rightarrow> fault + real" where
  "GetApicalLengthForElement s elemIndex =
     (case mpMesh s of
        None \<Rightarrow> Inl AssertionFailure
      | Some p \<Rightarrow>
          (let attribute_location = mReferenceLocationInAttributesVector s;
               es = elements (heap s p)
           in if \<not> elemIndex < length es then Inl IndexOutOfRange
              else if \<not> attribute_location < length (attributes (es ! elemIndex))
              then Inl AssertionFailure
              else Inr (attributes (es ! elemIndex) ! attribute_location)))"

definition GetBasalLengthForElement :: "state \<Rightarrow> nat \<Rightarrow> fault + real" where
  "GetBasalLengthForElement s elemIndex =
     (case mpMesh s of
        None \<Rightarrow> Inl AssertionFailure
      | Some p \<Rightarrow>
          (let attribute_location = mReferenceLocationInAttributesVector s + 1;
               es = elements (heap s p)
           in if \<not> elemIndex < length es then Inl IndexOutOfRange
              else if \<not> attribute_location < length (attributes (es ! elemIndex))
              then Inl AssertionFailure
              else Inr (attributes (es ! elemIndex) ! attribute_location)))"

section \<open>Closed forms used in the proofs\<close>

text \<open>
  The displacement of the cyclic pair \<open>(i, i+1 mod n)\<close>, the value of a segment force where
  the division is defined, and the sum of the aggregate forces that reach one node address.
\<close>

definition displacement :: "mesh \<Rightarrow> element \<Rightarrow> nat \<Rightarrow> vec" where
  "displacement m e i =
     vector_from_a_to_b m (GetNodeLocation m e i)
                          (GetNodeLocation m e ((i + 1) mod length (node_ptrs e)))"

definition segment_value :: "mesh \<Rightarrow> element \<Rightarrow> real \<Rightarrow> real \<Rightarrow> nat \<Rightarrow> vec" where
  "segment_value m e k rest i =
     scale_vec (k * (norm_2 (displacement m e i) - rest) / norm_2 (displacement m e i))
               (displacement m e i)"

definition add_forces :: "(nat \<Rightarrow> vec) \<Rightarrow> (nat \<Rightarrow> node) \<Rightarrow> (nat \<Rightarrow> node)" where
  "add_forces g h = (\<lambda>a. AddAppliedForceContribution (g a) (h a))"

definition aggregate_at :: "element \<Rightarrow> vec list \<Rightarrow> nat list \<Rightarrow> nat \<Rightarrow> vec" where
  "aggregate_at e forces idxs a =
     (\<Sum>i\<leftarrow>idxs. if node_ptrs e ! i = a
                 then forces ! i - forces ! ((i + length (node_ptrs e) - 1) mod length (node_ptrs e))
                 else 0)"

definition spring_constant_value :: "state \<Rightarrow> real \<Rightarrow> mesh \<Rightarrow> nat \<Rightarrow> real" where
  "spring_constant_value s iss m j =
     (if j = membrane_index m
      then mSpringConstant s * iss / (average_node_spacing m j * average_node_spacing m j)
             * mBasementSpringConstantModifier s
      else mSpringConstant s * iss / (average_node_spacing m j * average_node_spacing m j))"

definition element_defined :: "state \<Rightarrow> real \<Rightarrow> mesh \<Rightarrow> nat \<Rightarrow> bool" where
  "element_defined s iss m j =
     (let e = elements m ! j
      in node_ptrs e = [] \<or>
         (average_node_spacing m j \<noteq> 0 \<and>
          (\<forall>i \<in> set [0..<length (node_ptrs e)]. norm_2 (displacement m e i) \<noteq> 0)))"

definition element_forces :: "state \<Rightarrow> real \<Rightarrow> mesh \<Rightarrow> nat \<Rightarrow> vec list" where
  "element_forces s iss m j =
     (let e = elements m ! j
      in map (segment_value m e (spring_constant_value s iss m j) (rest_length_of s m j))
             [0..<length (node_ptrs e)])"

definition element_contribution :: "state \<Rightarrow> real \<Rightarrow> mesh \<Rightarrow> nat \<Rightarrow> nat \<Rightarrow> vec" where
  "element_contribution s iss m j =
     aggregate_at (elements m ! j) (element_forces s iss m j)
                  [0..<length (node_ptrs (elements m ! j))]"

definition total_contribution :: "state \<Rightarrow> real \<Rightarrow> mesh \<Rightarrow> nat \<Rightarrow> vec" where
  "total_contribution s iss m =
     (\<lambda>a. \<Sum>j\<leftarrow>[0..<length (elements m)]. element_contribution s iss m j a)"

section \<open>The force law in the words of the specification\<close>

text \<open>
  The segment force \<open>spring_constant * (d - rest_length) / d\<close> times the displacement, the
  force on node \<open>i\<close> as segment force \<open>i\<close> minus segment force \<open>i - 1 mod n\<close>, and the
  sum of these over every place where a node address occurs in the mesh. Nodes are unshared
  when no address occurs twice.
\<close>

definition spec_segment_force :: "real \<Rightarrow> real \<Rightarrow> vec \<Rightarrow> vec" where
  "spec_segment_force spring_constant rest_length v =
     scale_vec (spring_constant * (norm_2 v - rest_length) / norm_2 v) v"

definition spec_segment :: "state \<Rightarrow> population \<Rightarrow> mesh \<Rightarrow> nat \<Rightarrow> nat \<Rightarrow> vec" where
  "spec_segment s pop m j i =
     spec_segment_force (spring_constant_value s (intrinsic_spacing pop * intrinsic_spacing pop) m j)
                        (rest_length_of s m j)
                        (displacement m (elements m ! j) i)"

definition spec_node_force :: "state \<Rightarrow> population \<Rightarrow> mesh \<Rightarrow> nat \<Rightarrow> nat \<Rightarrow> vec" where
  "spec_node_force s pop m j i =
     spec_segment s pop m j i
       - spec_segment s pop m j (nat ((int i - 1) mod int (length (node_ptrs (elements m ! j)))))"

definition spec_total_force :: "state \<Rightarrow> population \<Rightarrow> mesh \<Rightarrow> nat \<Rightarrow> vec" where
  "spec_total_force s pop m a =
     (\<Sum>j\<leftarrow>[0..<length (elements m)].
        \<Sum>i\<leftarrow>[0..<length (node_ptrs (elements m ! j))].
          if node_ptrs (elements m ! j) ! i = a then spec_node_force s pop m j i else 0)"

definition unshared_nodes :: "mesh \<Rightarrow> bool" where
  "unshared_nodes m = distinct (concat (map node_ptrs (elements m)))"

text \<open>
  Resetting every force accumulator; meshes that agree on everything the force pass reads;
  force objects that agree on the four parameters; and the width recorded as baseline
  length of an element.
\<close>

definition reset_forces :: "state \<Rightarrow> state" where
  "reset_forces s =
     s\<lparr>heap := (\<lambda>q. (heap s q)\<lparr>nodes := (\<lambda>a. (nodes (heap s q) a)\<lparr>applied_force := (0, 0)\<rparr>)\<rparr>)\<rparr>"

definition same_geometry :: "mesh \<Rightarrow> mesh \<Rightarrow> bool" where
  "same_geometry m m' \<longleftrightarrow>
     map node_ptrs (elements m') = map node_ptrs (elements m)
     \<and> (\<forall>a. location (nodes m' a) = location (nodes m a))
     \<and> membrane_index m' = membrane_index m
     \<and> vector_from_a_to_b m' = vector_from_a_to_b m
     \<and> average_node_spacing m' = average_node_spacing m"

definition same_parameters :: "state \<Rightarrow> state \<Rightarrow> bool" where
  "same_parameters s s' \<longleftrightarrow>
     mSpringConstant s' = mSpringConstant s
     \<and> mRestLengthMultiplier s' = mRestLengthMultiplier s
     \<and> mBasementSpringConstantModifier s' = mBasementSpringConstantModifier s
     \<and> mBasementRestLengthModifier s' = mBasementRestLengthModifier s"

definition elem_width :: "mesh \<Rightarrow> nat \<Rightarrow> element \<Rightarrow> real" where
  "elem_width m j e =
     (if j = membrane_index m then 0
      else \<bar>fst (vector_from_a_to_b m (location (nodes m (node_ptrs e ! 0)))
                                      (location (nodes m (node_ptrs e ! (length (node_ptrs e) div 2)))))\<bar>)"

text \<open>
  The region ranges in the words of the specification: the five half-open ranges of local
  indices with their tags, in the order in which they are assigned (a range whose bounds
  cross is empty), and the tag a local index carries after they have been assigned.
\<close>

definition spec_region_ranges :: "nat \<Rightarrow> nat \<Rightarrow> nat \<Rightarrow> nat \<Rightarrow> nat \<Rightarrow> (nat \<times> nat \<times> nat) list" where
  "spec_region_ranges i0 i1 i2 i3 num_nodes =
     [(0, i1, msLat), (i1, i0 + 1, msApi), (i0 + 1, i3, msLat), (i3, i2 + 1, msBas),
      (i2 + 1, num_nodes, msLat)]"

fun assign_ranges :: "(nat \<times> nat \<times> nat) list \<Rightarrow> nat \<Rightarrow> nat \<Rightarrow> nat" where
  "assign_ranges [] i r = r"
| "assign_ranges ((lo, hi, t) # ranges) i r =
     assign_ranges ranges i (if lo \<le> i \<and> i < hi then t else r)"

section \<open>Example configurations\<close>

text \<open>
  Two unit squares side by side, each a ring of four nodes numbered anti-clockwise from
  the apical-right corner, with the constructor's default parameters; the second element
  is the membrane. And a degenerate mesh whose only element is a single node.
\<close>

definition example_location :: "nat \<Rightarrow> vec" where
  "example_location a =
     (if a = 0 then (1, 1) else if a = 1 then (0, 1) else if a = 2 then (0, 0)
      else if a = 3 then (1, 0) else if a = 4 then (3, 1) else if a = 5 then (2, 1)
      else if a = 6 then (2, 0) else (3, 0))"

definition example_mesh :: mesh where
  "example_mesh =
     \<lparr>elements = [\<lparr>node_ptrs = [0, 1, 2, 3], corner_nodes = [1, 0, 3, 2], attributes = []\<rparr>,
                  \<lparr>node_ptrs = [4, 5, 6, 7], corner_nodes = [5, 4, 7, 6], attributes = []\<rparr>],
      nodes = (\<lambda>a. \<lparr>location = example_location a, region = 7, applied_force = (0, 0)\<rparr>),
      membrane_index = 1,
      vector_from_a_to_b = (\<lambda>a b. b - a),
      average_node_spacing = (\<lambda>j. 1)\<rparr>"

definition example_point_mesh :: mesh where
  "example_point_mesh =
     \<lparr>elements = [\<lparr>node_ptrs = [0], corner_nodes = [], attributes = []\<rparr>],
      nodes = (\<lambda>a. \<lparr>location = (0, 0), region = 7, applied_force = (0, 0)\<rparr>),
      membrane_index = 1,
      vector_from_a_to_b = (\<lambda>a b. b - a),
      average_node_spacing = (\<lambda>j. 0)\<rparr>"

definition example_state :: "mesh \<Rightarrow> state" where
  "example_state m =
     \<lparr>mpMesh = None, mSpringConstant = 1000000, mRestLengthMultiplier = 1 / 2,
      mBasementSpringConstantModifier = 5, mBasementRestLengthModifier = 1 / 2,
      mElementsHaveCorners = False, mReferenceLocationInAttributesVector = 0,
      heap = (\<lambda>q. m)\<rparr>"

definition example_population :: population where
  "example_population = \<lparr>mesh_ptr = 0, intrinsic_spacing = 1\<rparr>"

definition example_mixed_corners_mesh :: mesh where
  "example_mixed_corners_mesh =
     example_mesh\<lparr>elements :=
       [\<lparr>node_ptrs = [0, 1, 2, 3], corner_nodes = [1, 0, 3, 2], attributes = []\<rparr>,
        \<lparr>node_ptrs = [4, 5, 6, 7], corner_nodes = [], attributes = []\<rparr>]\<rparr>"

definition example_mixed_attributes_mesh :: mesh where
  "example_mixed_attributes_mesh =
     example_mesh\<lparr>elements :=
       [\<lparr>node_ptrs = [0, 1, 2, 3], corner_nodes = [1, 0, 3, 2], attributes = []\<rparr>,
        \<lparr>node_ptrs = [4, 5, 6, 7], corner_nodes = [5, 4, 7, 6], attributes = [1]\<rparr>]\<rparr>"

definition example_rest_state :: state where
  "example_rest_state = (example_state example_mesh)\<lparr>mRestLengthMultiplier := 1\<rparr>"

text \<open>
  A single cell of twelve nodes whose node addresses are their local indices, with a given
  list of corner nodes, and the regions found at a list of node addresses after tagging.
\<close>

definition example_cell_mesh :: "nat list \<Rightarrow> mesh" where
  "example_cell_mesh corners =
     \<lparr>elements = [\<lparr>node_ptrs = [0, 1, 2, 3, 4, 5, 6, 7, 8, 9, 10, 11], corner_nodes = corners,
                   attributes = []\<rparr>],
      nodes = (\<lambda>a. \<lparr>location = (0, 0), region = 7, applied_force = (0, 0)\<rparr>),
      membrane_index = 1,
      vector_from_a_to_b = (\<lambda>a b. b - a),
      average_node_spacing = (\<lambda>j. 1)\<rparr>"

definition tagged_regions :: "fault + mesh \<Rightarrow> nat list \<Rightarrow> nat list option" where
  "tagged_regions r ptrs =
     (case r of Inl x \<Rightarrow> None | Inr m \<Rightarrow> Some (map (\<lambda>a. region (nodes m a)) ptrs))"

section \<open>Properties of the force computation\<close>

lemma elastic_force_Inr:
  "elastic_force m e (Inr k) rest i =
     (if norm_2 (displacement m e i) = 0 then Inl DivisionByZero
      else Inr (segment_value m e k rest i))"
  by (simp add: elastic_force_def displacement_def segment_value_def Let_def)

lemma elastic_force_Inl: "elastic_force m e (Inl x) rest i = Inl x"
  by (simp add: elastic_force_def Let_def)

lemma elastic_force_to_next_node_Inr:
  "elastic_force_to_next_node m e (Inr k) rest idxs =
     (if \<forall>i \<in> set idxs. norm_2 (displacement m e i) \<noteq> 0
      then Inr (map (segment_value m e k rest) idxs)
      else Inl DivisionByZero)"
  by (induction idxs) (simp_all add: elastic_force_Inr)

lemma elastic_force_to_next_node_Inl:
  "elastic_force_to_next_node m e (Inl x) rest idxs = (if idxs = [] then Inr [] else Inl x)"
  by (cases idxs) (simp_all add: elastic_force_Inl)

lemma add_forces_apply: "add_forces g h a = (h a)\<lparr>applied_force := applied_force (h a) + g a\<rparr>"
  by (simp add: add_forces_def AddAppliedForceContribution_def)

lemma add_forces_add_forces: "add_forces g2 (add_forces g1 h) = add_forces (\<lambda>a. g1 a + g2 a) h"
  by (rule ext) (simp add: add_forces_apply add.assoc)

lemma add_forces_zero [simp]: "add_forces (\<lambda>a. 0) h = h"
  by (rule ext) (simp add: add_forces_apply)

lemma add_aggregate_forces_eq:
  "add_aggregate_forces e forces idxs h = add_forces (aggregate_at e forces idxs) h"
proof (induction idxs arbitrary: h)
  case Nil
  show ?case by (rule ext) (simp add: aggregate_at_def add_forces_apply)
next
  case (Cons i idxs)
  show ?case
    apply (rule ext)
    apply (simp add: Cons.IH Let_def)
    apply (simp add: add_forces_apply aggregate_at_def AddAppliedForceContribution_def add.assoc)
    done
qed

lemma spring_constant_of_eq:
  "spring_constant_of s iss m j =
     (if average_node_spacing m j = 0 then Inl DivisionByZero
      else Inr (spring_constant_value s iss m j))"
  by (simp add: spring_constant_of_def spring_constant_value_def Let_def)

lemma element_force_contribution_eq:
  "element_force_contribution s iss j m =
     (if element_defined s iss m j
      then Inr (m\<lparr>nodes := add_forces (element_contribution s iss m j) (nodes m)\<rparr>)
      else Inl DivisionByZero)"
  by (simp add: element_force_contribution_def element_defined_def element_forces_def
      element_contribution_def spring_constant_of_eq elastic_force_to_next_node_Inr
      elastic_force_to_next_node_Inl add_aggregate_forces_eq Let_def)

lemma displacement_add_forces [simp]:
  "displacement (m\<lparr>nodes := add_forces g (nodes m)\<rparr>) e i = displacement m e i"
  by (simp add: displacement_def GetNodeLocation_def add_forces_apply)

lemma segment_value_add_forces [simp]:
  "segment_value (m\<lparr>nodes := add_forces g (nodes m)\<rparr>) e k rest = segment_value m e k rest"
  by (rule ext) (simp add: segment_value_def)

lemma element_defined_add_forces [simp]:
  "element_defined s iss (m\<lparr>nodes := add_forces g (nodes m)\<rparr>) j = element_defined s iss m j"
  by (simp add: element_defined_def)

lemma element_contribution_add_forces [simp]:
  "element_contribution s iss (m\<lparr>nodes := add_forces g (nodes m)\<rparr>) j = element_contribution s iss m j"
  by (simp add: element_contribution_def element_forces_def spring_constant_value_def
      rest_length_of_def Let_def)

lemma element_loop_eq:
  "element_loop s iss js m =
     (if \<forall>j \<in> set js. element_defined s iss m j
      then Inr (m\<lparr>nodes := add_forces (\<lambda>a. \<Sum>j\<leftarrow>js. element_contribution s iss m j a) (nodes m)\<rparr>)
      else Inl DivisionByZero)"
proof (induction js arbitrary: m)
  case Nil
  show ?case by simp
next
  case (Cons j js)
  show ?case
    by (simp add: element_force_contribution_eq Cons.IH add_forces_add_forces)
qed

lemma force_computation_eq:
  "force_computation pop s =
     (case mpMesh s of
        None \<Rightarrow> Fault AssertionFailure
      | Some p \<Rightarrow>
          if \<forall>j \<in> set [0..<length (elements (heap s p))].
               element_defined s (intrinsic_spacing pop * intrinsic_spacing pop) (heap s p) j
          then Completed (s\<lparr>heap := (heap s)(p := (heap s p)\<lparr>nodes :=
                 add_forces (total_contribution s (intrinsic_spacing pop * intrinsic_spacing pop) (heap s p))
                            (nodes (heap s p))\<rparr>)\<rparr>)
          else Fault DivisionByZero)"
  by (simp add: force_computation_def element_loop_eq total_contribution_def Let_def
      split: option.splits)

lemma example_displacement_0:
  "displacement example_mesh (elements example_mesh ! 0) 0 = (-1, 0)"
  by (simp add: displacement_def example_mesh_def GetNodeLocation_def example_location_def)

lemma example_point_displacement:
  "displacement example_point_mesh (elements example_point_mesh ! 0) 0 = (0, 0)"
  by (simp add: displacement_def example_point_mesh_def GetNodeLocation_def zero_prod_def)

section \<open>Spring constant and rest length\<close>

text \<open>
  Claim C2. For every element the spring constant used is the base spring constant times
  the intrinsic spacing squared divided by the spacing ratio squared, and the rest length is
  the rest-length multiplier times the spacing ratio, the spacing ratio being the element's
  average node spacing; exactly for the membrane element the spring constant is further
  multiplied by the basement spring-constant modifier and the rest length by the basement
  rest-length modifier. The quotient is a real number when the spacing ratio is not zero.
\<close>

theorem spring_properties:
  assumes "average_node_spacing m elem_idx \<noteq> 0"
  shows "(elem_idx \<noteq> membrane_index m \<longrightarrow>
            spring_constant_of s (intrinsic_spacing pop * intrinsic_spacing pop) m elem_idx
              = Inr (mSpringConstant s * (intrinsic_spacing pop)\<^sup>2 / (average_node_spacing m elem_idx)\<^sup>2)
          \<and> rest_length_of s m elem_idx = mRestLengthMultiplier s * average_node_spacing m elem_idx)
       \<and> (elem_idx = membrane_index m \<longrightarrow>
            spring_constant_of s (intrinsic_spacing pop * intrinsic_spacing pop) m elem_idx
              = Inr (mSpringConstant s * (intrinsic_spacing pop)\<^sup>2 / (average_node_spacing m elem_idx)\<^sup>2
                     * mBasementSpringConstantModifier s)
          \<and> rest_length_of s m elem_idx
              = mRestLengthMultiplier s * average_node_spacing m elem_idx * mBasementRestLengthModifier s)"
  using assms by (auto simp add: spring_constant_of_def rest_length_of_def power2_eq_square Let_def)

theorem spring_properties_witness:
  "average_node_spacing example_mesh 0 \<noteq> 0 \<and> average_node_spacing example_mesh 1 \<noteq> 0
   \<and> 0 \<noteq> membrane_index example_mesh \<and> 1 = membrane_index example_mesh
   \<and> spring_constant_of (example_state example_mesh) (1 * 1) example_mesh 0 = Inr 1000000
   \<and> rest_length_of (example_state example_mesh) example_mesh 0 = 1 / 2
   \<and> spring_constant_of (example_state example_mesh) (1 * 1) example_mesh 1 = Inr 5000000
   \<and> rest_length_of (example_state example_mesh) example_mesh 1 = 1 / 4"
  using spring_properties [of example_mesh 0 "example_state example_mesh" example_population]
        spring_properties [of example_mesh 1 "example_state example_mesh" example_population]
  by (simp add: example_mesh_def example_state_def example_population_def)

section \<open>Division by the segment length\<close>

text \<open>
  Claim C7. The segment force divides by the segment length \<open>d\<close> without a guard: for an
  adjacent pair with \<open>d > 0\<close> the segment force is the real vector of the force law, and
  when \<open>d = 0\<close> the division has no value. Nothing handles that: a per-timestep call on
  a mesh with such a pair ends in the division fault, neither in an exception of the force
  class nor in a completed force computation.
\<close>

theorem division_by_segment_length_unguarded:
  "(0 < norm_2 (displacement m e i) \<longrightarrow>
      elastic_force m e (Inr k) rest i
        = Inr (scale_vec (k * (norm_2 (displacement m e i) - rest) / norm_2 (displacement m e i))
                         (displacement m e i)))
   \<and> (norm_2 (displacement m e i) = 0 \<longrightarrow> elastic_force m e (Inr k) rest i = Inl DivisionByZero)
   \<and> (mpMesh s = Some p \<and> j < length (elements (heap s p))
        \<and> i' < length (node_ptrs (elements (heap s p) ! j))
        \<and> norm_2 (displacement (heap s p) (elements (heap s p) ! j) i') = 0
      \<longrightarrow> AddImmersedBoundaryForceContribution pop s = Fault DivisionByZero)"
proof (intro conjI impI)
  assume "0 < norm_2 (displacement m e i)"
  then show "elastic_force m e (Inr k) rest i
        = Inr (scale_vec (k * (norm_2 (displacement m e i) - rest) / norm_2 (displacement m e i))
                         (displacement m e i))"
    by (simp add: elastic_force_Inr segment_value_def)
next
  assume "norm_2 (displacement m e i) = 0"
  then show "elastic_force m e (Inr k) rest i = Inl DivisionByZero"
    by (simp add: elastic_force_Inr)
next
  assume a: "mpMesh s = Some p \<and> j < length (elements (heap s p))
        \<and> i' < length (node_ptrs (elements (heap s p) ! j))
        \<and> norm_2 (displacement (heap s p) (elements (heap s p) ! j) i') = 0"
  then have "\<not> element_defined s (intrinsic_spacing pop * intrinsic_spacing pop) (heap s p) j"
    by (auto simp: element_defined_def Let_def)
  with a have "\<not> (\<forall>j \<in> set [0..<length (elements (heap s p))].
               element_defined s (intrinsic_spacing pop * intrinsic_spacing pop) (heap s p) j)"
    by auto
  with a show "AddImmersedBoundaryForceContribution pop s = Fault DivisionByZero"
    by (simp add: AddImmersedBoundaryForceContribution_def force_computation_eq)
qed

theorem division_by_segment_length_unguarded_witness:
  "0 < norm_2 (displacement example_mesh (elements example_mesh ! 0) 0)
   \<and> elastic_force example_mesh (elements example_mesh ! 0) (Inr 1000000) (1 / 2) 0
       = Inr (-500000, 0)
   \<and> norm_2 (displacement example_point_mesh (elements example_point_mesh ! 0) 0) = 0
   \<and> elastic_force example_point_mesh (elements example_point_mesh ! 0) (Inr 1000000) 0 0
       = Inl DivisionByZero
   \<and> AddImmersedBoundaryForceContribution example_population
        ((example_state example_point_mesh)\<lparr>mpMesh := Some 0\<rparr>) = Fault DivisionByZero"
proof -
  have n1: "norm_2 (displacement example_mesh (elements example_mesh ! 0) 0) = 1"
    by (simp add: example_displacement_0 norm_2_def)
  have n0: "norm_2 (displacement example_point_mesh (elements example_point_mesh ! 0) 0) = 0"
    by (simp add: example_point_displacement norm_2_def)
  note a = division_by_segment_length_unguarded
             [of example_mesh "elements example_mesh ! 0" 0 1000000 "1 / 2"
                 "(example_state example_point_mesh)\<lparr>mpMesh := Some 0\<rparr>" 0 0 0 example_population]
  note b = division_by_segment_length_unguarded
             [of example_point_mesh "elements example_point_mesh ! 0" 0 1000000 0
                 "(example_state example_point_mesh)\<lparr>mpMesh := Some 0\<rparr>" 0 0 0 example_population]
  from a have 1: "elastic_force example_mesh (elements example_mesh ! 0) (Inr 1000000) (1 / 2) 0
       = Inr (-500000, 0)"
    by (simp add: example_displacement_0 scale_vec_def norm_2_def)
  from b have 2: "elastic_force example_point_mesh (elements example_point_mesh ! 0) (Inr 1000000) 0 0
       = Inl DivisionByZero"
    by (simp add: example_point_displacement norm_2_def)
  have h: "heap ((example_state example_point_mesh)\<lparr>mpMesh := Some 0\<rparr>) 0 = example_point_mesh"
    by (simp add: example_state_def)
  have "mpMesh ((example_state example_point_mesh)\<lparr>mpMesh := Some 0\<rparr>) = Some 0"
    and "0 < length (elements example_point_mesh)"
    and "0 < length (node_ptrs (elements example_point_mesh ! 0))"
    by (simp_all add: example_point_mesh_def)
  with b n0 h have 3: "AddImmersedBoundaryForceContribution example_population
        ((example_state example_point_mesh)\<lparr>mpMesh := Some 0\<rparr>) = Fault DivisionByZero"
    by presburger
  from n1 n0 1 2 3 show ?thesis by simp
qed

section \<open>Configuration errors of the first call\<close>

text \<open>
  Claim C6. At the first force-contribution call (the mesh pointer is still null), if an
  element's corner count differs from that of element 0, or if all corner counts are 4 and
  an element's attribute count differs from that of element 0, the call raises the
  configuration error. The state it leaves has the mesh pointer (and, for the second error,
  the corner flag and the attribute offset) assigned and the memory untouched: no tagging
  and no force computation has taken place. The errors belong to the first invocation
  only: a call that finds the mesh pointer set raises neither.
\<close>

theorem configuration_errors:
  assumes "mpMesh s = None" and "elements (heap s (mesh_ptr pop)) = e0 # others"
  shows "((\<exists>e \<in> set others. length (corner_nodes e) \<noteq> length (corner_nodes e0)) \<longrightarrow>
            AddImmersedBoundaryForceContribution pop s
              = Exception corners_message (s\<lparr>mpMesh := Some (mesh_ptr pop)\<rparr>))
       \<and> ((\<forall>e \<in> set others. length (corner_nodes e) = length (corner_nodes e0))
            \<and> length (corner_nodes e0) = 4
            \<and> (\<exists>e \<in> set others. length (attributes e) \<noteq> length (attributes e0)) \<longrightarrow>
            AddImmersedBoundaryForceContribution pop s
              = Exception attributes_message
                  (s\<lparr>mpMesh := Some (mesh_ptr pop), mElementsHaveCorners := True,
                     mReferenceLocationInAttributesVector := length (attributes e0)\<rparr>))
       \<and> (mpMesh later \<noteq> None \<longrightarrow>
            AddImmersedBoundaryForceContribution pop later \<noteq> Exception msg after)"
proof -
  have "AddImmersedBoundaryForceContribution pop later \<noteq> Exception msg after"
    if "mpMesh later \<noteq> None"
    using that
    by (auto simp: AddImmersedBoundaryForceContribution_def force_computation_def Let_def
        split: sum.splits)
  with assms show ?thesis
    by (auto simp: AddImmersedBoundaryForceContribution_def one_time_setup_def Let_def)
qed

theorem configuration_errors_witness:
  "AddImmersedBoundaryForceContribution example_population (example_state example_mixed_corners_mesh)
     = Exception corners_message ((example_state example_mixed_corners_mesh)\<lparr>mpMesh := Some 0\<rparr>)
   \<and> AddImmersedBoundaryForceContribution example_population (example_state example_mixed_attributes_mesh)
     = Exception attributes_message
         ((example_state example_mixed_attributes_mesh)
            \<lparr>mpMesh := Some 0, mElementsHaveCorners := True,
             mReferenceLocationInAttributesVector := 0\<rparr>)"
  using configuration_errors [of "example_state example_mixed_corners_mesh" example_population
          "\<lparr>node_ptrs = [0, 1, 2, 3], corner_nodes = [1, 0, 3, 2], attributes = []\<rparr>"
          "[\<lparr>node_ptrs = [4, 5, 6, 7], corner_nodes = [], attributes = []\<rparr>]"]
        configuration_errors [of "example_state example_mixed_attributes_mesh" example_population
          "\<lparr>node_ptrs = [0, 1, 2, 3], corner_nodes = [1, 0, 3, 2], attributes = []\<rparr>"
          "[\<lparr>node_ptrs = [4, 5, 6, 7], corner_nodes = [5, 4, 7, 6], attributes = [1]\<rparr>]"]
  by (simp add: example_state_def example_population_def example_mixed_corners_mesh_def
      example_mixed_attributes_mesh_def example_mesh_def)

text \<open>
  Claim C10. The one-time setup is not atomic on error: the mesh pointer is bound before
  the corner-count and attribute-count validation, so after a first call that raised a
  configuration error the pointer is set and the memory is as before; any later call then
  skips setup and validation, is exactly the force computation, and raises no
  configuration error.
\<close>

theorem setup_not_atomic:
  assumes "AddImmersedBoundaryForceContribution pop s = Exception msg s1"
  shows "mpMesh s = None \<and> mpMesh s1 = Some (mesh_ptr pop) \<and> heap s1 = heap s
       \<and> AddImmersedBoundaryForceContribution pop' s1 = force_computation pop' s1
       \<and> (\<forall>msg' s2. AddImmersedBoundaryForceContribution pop' s1 \<noteq> Exception msg' s2)"
  using assms
  by (auto simp: AddImmersedBoundaryForceContribution_def force_computation_def one_time_setup_def Let_def
      split: if_splits outcome.splits list.splits sum.splits option.splits)

theorem setup_not_atomic_witness:
  "AddImmersedBoundaryForceContribution example_population (example_state example_mixed_corners_mesh)
     = Exception corners_message ((example_state example_mixed_corners_mesh)\<lparr>mpMesh := Some 0\<rparr>)
   \<and> AddImmersedBoundaryForceContribution example_population
        ((example_state example_mixed_corners_mesh)\<lparr>mpMesh := Some 0\<rparr>)
     = force_computation example_population ((example_state example_mixed_corners_mesh)\<lparr>mpMesh := Some 0\<rparr>)"
proof -
  have first: "AddImmersedBoundaryForceContribution example_population
                 (example_state example_mixed_corners_mesh)
     = Exception corners_message ((example_state example_mixed_corners_mesh)\<lparr>mpMesh := Some 0\<rparr>)"
    by (simp add: AddImmersedBoundaryForceContribution_def one_time_setup_def example_state_def
      example_population_def example_mixed_corners_mesh_def example_mesh_def Let_def)
  from setup_not_atomic [OF first, of example_population] first show ?thesis by simp
qed

section \<open>Sums of forces over the places where a node occurs\<close>

lemma prev_idx_eq:
  assumes "i < n"
  shows "(i + n - 1) mod n = nat ((int i - 1) mod int n)"
proof (cases i)
  case 0
  from assms have "(- 1) mod int n = int n - 1"
    by (simp add: zmod_minus1)
  with assms 0 show ?thesis by (simp add: nat_diff_distrib)
next
  case (Suc k)
  with assms have "int k mod int n = int k" by simp
  with assms Suc show ?thesis by simp
qed

lemma sum_list_cong:
  "(\<And>x. x \<in> set xs \<Longrightarrow> f x = g x) \<Longrightarrow> (\<Sum>x\<leftarrow>xs. f x) = (\<Sum>x\<leftarrow>xs. g x)"
  by (metis (no_types, lifting) map_eq_conv)

lemma sum_list_single:
  fixes f :: "nat \<Rightarrow> 'a::comm_monoid_add"
  assumes "i0 < n"
  shows "(\<Sum>i\<leftarrow>[0..<n]. if i = i0 then f i else 0) = f i0"
  using assms
  by (simp add: interv_sum_list_conv_sum_set_nat)

lemma sum_list_all_zero:
  "(\<And>x. x \<in> set xs \<Longrightarrow> f x = 0) \<Longrightarrow> (\<Sum>x\<leftarrow>xs. f x) = (0::'a::monoid_add)"
  by (induction xs) simp_all

lemma distinct_concat_nth:
  "distinct (concat xss) \<Longrightarrow> j < length xss \<Longrightarrow> i < length (xss ! j) \<Longrightarrow>
   j' < length xss \<Longrightarrow> i' < length (xss ! j') \<Longrightarrow> xss ! j ! i = xss ! j' ! i' \<Longrightarrow>
   j = j' \<and> i = i'"
proof (induction xss arbitrary: j j')
  case Nil
  then show ?case by simp
next
  case (Cons xs xss)
  from Cons.prems(1) have dxs: "distinct xs" and dxss: "distinct (concat xss)"
    and disj: "\<And>x ys. x \<in> set xs \<Longrightarrow> ys \<in> set xss \<Longrightarrow> x \<notin> set ys"
    by auto
  have clash: False
    if "a < length xs" and "k < length xss" and "b < length (xss ! k)" and "xs ! a = xss ! k ! b"
    for a k b
  proof -
    have "xs ! a \<in> set xs" using that(1) by (rule nth_mem)
    moreover have "xss ! k \<in> set xss" using that(2) by (rule nth_mem)
    moreover have "xss ! k ! b \<in> set (xss ! k)" using that(3) by (rule nth_mem)
    ultimately show False using that(4) disj by metis
  qed
  show ?case
  proof (cases j)
    case 0
    note j0 = this
    show ?thesis
    proof (cases j')
      case 0
      with j0 Cons.prems dxs show ?thesis by (simp add: nth_eq_iff_index_eq)
    next
      case (Suc k')
      with j0 Cons.prems clash [of i k' i'] show ?thesis by simp
    qed
  next
    case (Suc k)
    note jS = this
    show ?thesis
    proof (cases j')
      case 0
      with jS Cons.prems clash [of i' k i] show ?thesis by simp
    next
      case (Suc k')
      with jS Cons.prems dxss Cons.IH [of k k'] show ?thesis by simp
    qed
  qed
qed

lemma element_forces_nth:
  assumes "i < length (node_ptrs (elements m ! j))"
  shows "element_forces s (intrinsic_spacing pop * intrinsic_spacing pop) m j ! i = spec_segment s pop m j i"
  using assms
  by (simp add: element_forces_def spec_segment_def spec_segment_force_def segment_value_def Let_def)

lemma element_contribution_spec:
  "element_contribution s (intrinsic_spacing pop * intrinsic_spacing pop) m j a =
     (\<Sum>i\<leftarrow>[0..<length (node_ptrs (elements m ! j))].
        if node_ptrs (elements m ! j) ! i = a then spec_node_force s pop m j i else 0)"
  unfolding element_contribution_def aggregate_at_def
proof (rule sum_list_cong)
  fix i assume "i \<in> set [0..<length (node_ptrs (elements m ! j))]"
  then have i: "i < length (node_ptrs (elements m ! j))" by simp
  then have p: "(i + length (node_ptrs (elements m ! j)) - 1) mod length (node_ptrs (elements m ! j))
                  < length (node_ptrs (elements m ! j))"
    by (intro mod_less_divisor) auto
  show "(if node_ptrs (elements m ! j) ! i = a
         then element_forces s (intrinsic_spacing pop * intrinsic_spacing pop) m j ! i
              - element_forces s (intrinsic_spacing pop * intrinsic_spacing pop) m j !
                  ((i + length (node_ptrs (elements m ! j)) - 1) mod length (node_ptrs (elements m ! j)))
         else 0)
      = (if node_ptrs (elements m ! j) ! i = a then spec_node_force s pop m j i else 0)"
    using i p
    by (simp add: element_forces_nth spec_node_force_def prev_idx_eq [symmetric])
qed

lemma total_contribution_spec:
  "total_contribution s (intrinsic_spacing pop * intrinsic_spacing pop) m = spec_total_force s pop m"
  by (rule ext) (simp add: total_contribution_def spec_total_force_def element_contribution_spec)

lemma spec_total_force_unshared:
  assumes "unshared_nodes m" and j: "j < length (elements m)"
    and i: "i < length (node_ptrs (elements m ! j))"
  shows "spec_total_force s pop m (node_ptrs (elements m ! j) ! i) = spec_node_force s pop m j i"
proof -
  let ?a = "node_ptrs (elements m ! j) ! i"
  let ?inner = "\<lambda>j'. \<Sum>i'\<leftarrow>[0..<length (node_ptrs (elements m ! j'))].
          if node_ptrs (elements m ! j') ! i' = ?a then spec_node_force s pop m j' i' else 0"
  have uniq: "j' = j \<and> i' = i"
    if "j' < length (elements m)" "i' < length (node_ptrs (elements m ! j'))"
       "node_ptrs (elements m ! j') ! i' = ?a" for j' i'
    using distinct_concat_nth [of "map node_ptrs (elements m)" j' i' j i] assms that
    by (simp add: unshared_nodes_def)
  have inner: "?inner j' = (if j' = j then spec_node_force s pop m j i else 0)"
    if "j' < length (elements m)" for j'
  proof (cases "j' = j")
    case True
    have "?inner j = (\<Sum>i'\<leftarrow>[0..<length (node_ptrs (elements m ! j))].
             if i' = i then spec_node_force s pop m j i' else 0)"
      by (rule sum_list_cong) (use uniq j in auto)
    also have "\<dots> = spec_node_force s pop m j i"
      using i by (rule sum_list_single)
    finally have "?inner j = spec_node_force s pop m j i" .
    then show ?thesis unfolding True by simp
  next
    case False
    have "?inner j' = 0"
      by (rule sum_list_all_zero) (use uniq that False in auto)
    with False show ?thesis by simp
  qed
  have "spec_total_force s pop m ?a = (\<Sum>j'\<leftarrow>[0..<length (elements m)]. ?inner j')"
    by (simp add: spec_total_force_def)
  also have "\<dots> = (\<Sum>j'\<leftarrow>[0..<length (elements m)]. if j' = j then spec_node_force s pop m j i else 0)"
    by (rule sum_list_cong) (use inner in simp)
  also have "\<dots> = spec_node_force s pop m j i"
    using j sum_list_single [of j "length (elements m)" "\<lambda>j'. spec_node_force s pop m j i"]
    by simp
  finally show ?thesis .
qed

lemma example_defined:
  "element_defined s 1 example_mesh 0" "element_defined s 1 example_mesh 1"
  by (simp_all add: element_defined_def example_mesh_def displacement_def GetNodeLocation_def
      example_location_def norm_2_def Let_def atLeastLessThanSuc)

lemma example_unshared: "unshared_nodes example_mesh"
  by (simp add: unshared_nodes_def example_mesh_def)

lemma example_node_force_0:
  "spec_node_force ((example_state example_mesh)\<lparr>mpMesh := Some 0, mElementsHaveCorners := True\<rparr>)
      example_population example_mesh 0 0 = (-500000, -500000)"
  by (simp add: spec_node_force_def spec_segment_def spec_segment_force_def spring_constant_value_def
      rest_length_of_def example_state_def example_population_def example_mesh_def displacement_def
      GetNodeLocation_def example_location_def norm_2_def scale_vec_def Let_def)

section \<open>The force added to every node\<close>

text \<open>
  Claim C1. In a per-timestep call that completes, for every element and every cyclic
  adjacent pair \<open>(i, i+1 mod n)\<close> the stored segment force is
  \<open>spring_constant * (d - rest_length) / d\<close> times the periodic displacement from node \<open>i\<close>
  to node \<open>i+1\<close>, and the call changes nothing but the force accumulators: each accumulator
  grows by segment force \<open>i\<close> minus segment force \<open>i-1 mod n\<close> for every place \<open>i\<close> where
  the node occurs, and by nothing else, whatever the corner flag says. When no node is
  shared, node \<open>i\<close> of an element receives exactly that one difference.
\<close>

theorem node_force_accumulation:
  assumes "mpMesh s = Some p"
    and "AddImmersedBoundaryForceContribution pop s = Completed s'"
  shows "(\<forall>j < length (elements (heap s p)). \<forall>i < length (node_ptrs (elements (heap s p) ! j)).
            elastic_force (heap s p) (elements (heap s p) ! j)
               (spring_constant_of s (intrinsic_spacing pop * intrinsic_spacing pop) (heap s p) j)
               (rest_length_of s (heap s p) j) i
             = Inr (spec_segment s pop (heap s p) j i))
       \<and> s' = s\<lparr>heap := (heap s)(p := (heap s p)\<lparr>nodes := \<lambda>a. (nodes (heap s p) a)
                 \<lparr>applied_force := applied_force (nodes (heap s p) a) + spec_total_force s pop (heap s p) a\<rparr>\<rparr>)\<rparr>
       \<and> (unshared_nodes (heap s p) \<longrightarrow>
            (\<forall>j < length (elements (heap s p)). \<forall>i < length (node_ptrs (elements (heap s p) ! j)).
               applied_force (nodes (heap s' p) (node_ptrs (elements (heap s p) ! j) ! i))
                 = applied_force (nodes (heap s p) (node_ptrs (elements (heap s p) ! j) ! i))
                   + spec_node_force s pop (heap s p) j i))"
proof -
  let ?m = "heap s p"
  let ?iss = "intrinsic_spacing pop * intrinsic_spacing pop"
  from assms have fc: "force_computation pop s = Completed s'"
    by (simp add: AddImmersedBoundaryForceContribution_def)
  with assms(1) have defd: "\<forall>j \<in> set [0..<length (elements ?m)]. element_defined s ?iss ?m j"
    by (simp add: force_computation_eq split: if_splits)
  from fc assms(1) defd have s': "s' = s\<lparr>heap := (heap s)(p := ?m\<lparr>nodes :=
                 add_forces (total_contribution s ?iss ?m) (nodes ?m)\<rparr>)\<rparr>"
    by (simp add: force_computation_eq)
  have nodes_eq: "add_forces (total_contribution s ?iss ?m) (nodes ?m)
      = (\<lambda>a. (nodes ?m a)\<lparr>applied_force := applied_force (nodes ?m a) + spec_total_force s pop ?m a\<rparr>)"
    by (rule ext) (simp add: add_forces_apply total_contribution_spec)
  have seg: "elastic_force ?m (elements ?m ! j) (spring_constant_of s ?iss ?m j) (rest_length_of s ?m j) i
             = Inr (spec_segment s pop ?m j i)"
    if "j < length (elements ?m)" "i < length (node_ptrs (elements ?m ! j))" for j i
  proof -
    from defd that have "element_defined s ?iss ?m j" by simp
    with that show ?thesis
      by (auto simp: element_defined_def Let_def spring_constant_of_eq elastic_force_Inr
          spec_segment_def spec_segment_force_def segment_value_def)
  qed
  have third: "applied_force (nodes (heap s' p) (node_ptrs (elements ?m ! j) ! i))
                 = applied_force (nodes ?m (node_ptrs (elements ?m ! j) ! i))
                   + spec_node_force s pop ?m j i"
    if "unshared_nodes ?m" "j < length (elements ?m)" "i < length (node_ptrs (elements ?m ! j))" for j i
    using that by (simp add: s' nodes_eq spec_total_force_unshared)
  from seg s' nodes_eq third show ?thesis by simp
qed

theorem node_force_accumulation_witness:
  "\<exists>s'. AddImmersedBoundaryForceContribution example_population
           ((example_state example_mesh)\<lparr>mpMesh := Some 0, mElementsHaveCorners := True\<rparr>)
         = Completed s'
      \<and> applied_force (nodes (heap s' 0) 0) = (-500000, -500000)"
proof -
  let ?s = "(example_state example_mesh)\<lparr>mpMesh := Some 0, mElementsHaveCorners := True\<rparr>"
  have p: "mpMesh ?s = Some 0" by simp
  have h: "heap ?s 0 = example_mesh" by (simp add: example_state_def)
  have i: "intrinsic_spacing example_population * intrinsic_spacing example_population = 1"
    by (simp add: example_population_def)
  have len: "length (elements example_mesh) = Suc (Suc 0)" by (simp add: example_mesh_def)
  have "\<forall>j \<in> set [0..<length (elements (heap ?s 0))].
           element_defined ?s (intrinsic_spacing example_population * intrinsic_spacing example_population)
             (heap ?s 0) j"
    unfolding h i len using example_defined [of ?s] by (simp add: atLeastLessThanSuc)
  with p obtain s' where c: "AddImmersedBoundaryForceContribution example_population ?s = Completed s'"
    by (simp add: AddImmersedBoundaryForceContribution_def force_computation_eq)
  have n0: "0 < length (elements (heap ?s 0))"
    and n1: "0 < length (node_ptrs (elements (heap ?s 0) ! 0))"
    and ptr: "node_ptrs (elements (heap ?s 0) ! 0) ! 0 = 0"
    and old: "applied_force (nodes (heap ?s 0) 0) = (0, 0)"
    unfolding h by (simp_all add: example_mesh_def)
  have u: "unshared_nodes (heap ?s 0)" unfolding h by (rule example_unshared)
  note node_force_accumulation [OF p c, THEN conjunct2, THEN conjunct2, THEN mp, OF u,
         THEN spec, of 0, THEN mp, OF n0, THEN spec, of 0, THEN mp, OF n1]
  then have "applied_force (nodes (heap s' 0) 0) = (-500000, -500000)"
    unfolding ptr old unfolding h example_node_force_0 by simp
  with c show ?thesis by blast
qed

section \<open>Segments at rest length\<close>

lemma map_all_equal:
  "(\<And>x. x \<in> set xs \<Longrightarrow> f x = c) \<Longrightarrow> map f xs = replicate (length xs) c"
  by (induction xs) simp_all

lemma aggregate_at_zero:
  "aggregate_at e (replicate (length (node_ptrs e)) (0, 0)) [0..<length (node_ptrs e)] = (\<lambda>a. 0)"
proof (rule ext)
  fix a
  show "aggregate_at e (replicate (length (node_ptrs e)) (0, 0)) [0..<length (node_ptrs e)] a = 0"
    unfolding aggregate_at_def
  proof (rule sum_list_all_zero)
    fix i assume "i \<in> set [0..<length (node_ptrs e)]"
    then have i: "i < length (node_ptrs e)" by simp
    then have "(i + length (node_ptrs e) - 1) mod length (node_ptrs e) < length (node_ptrs e)"
      by (intro mod_less_divisor) auto
    with i show "(if node_ptrs e ! i = a
        then replicate (length (node_ptrs e)) (0, 0) ! i -
             replicate (length (node_ptrs e)) (0, 0) !
               ((i + length (node_ptrs e) - 1) mod length (node_ptrs e))
        else 0) = (0::vec)"
      by (simp add: zero_prod_def)
  qed
qed

lemma example_rest:
  "\<forall>i < length (node_ptrs (elements example_mesh ! 0)).
      norm_2 (displacement example_mesh (elements example_mesh ! 0) i)
        = rest_length_of example_rest_state example_mesh 0"
    "rest_length_of example_rest_state example_mesh 0 \<noteq> 0"
  by (simp_all add: example_rest_state_def example_state_def rest_length_of_def example_mesh_def
      displacement_def GetNodeLocation_def example_location_def norm_2_def Let_def
      less_Suc_eq)

text \<open>
  Claim C8, amended. For an element in which every cyclic segment has length exactly the
  rest length used for that element, and that rest length is not zero, every stored
  segment force is the zero vector and the element's pass leaves the mesh as it is: the
  aggregate force added to every node is zero. (With rest length zero the segments have
  length zero and the division has no value; the counterexample below is a single-node
  element with the default parameters.)
\<close>

theorem rest_length_zero_force:
  assumes rest: "\<forall>i < length (node_ptrs (elements m ! j)).
                   norm_2 (displacement m (elements m ! j) i) = rest_length_of s m j"
    and nz: "rest_length_of s m j \<noteq> 0"
  shows "elastic_force_to_next_node m (elements m ! j) (spring_constant_of s iss m j)
             (rest_length_of s m j) [0..<length (node_ptrs (elements m ! j))]
           = Inr (replicate (length (node_ptrs (elements m ! j))) (0, 0))
       \<and> element_force_contribution s iss j m = Inr m"
proof -
  let ?e = "elements m ! j"
  let ?n = "length (node_ptrs ?e)"
  from nz have sr: "average_node_spacing m j \<noteq> 0"
    by (auto simp: rest_length_of_def Let_def split: if_splits)
  have seg: "segment_value m ?e k (rest_length_of s m j) i = (0, 0)" if "i \<in> set [0..<?n]" for i k
    using that rest by (simp add: segment_value_def scale_vec_def)
  have forces: "map (segment_value m ?e k (rest_length_of s m j)) [0..<?n] = replicate ?n (0, 0)" for k
    using map_all_equal [of "[0..<?n]" "segment_value m ?e k (rest_length_of s m j)" "(0, 0)"] seg
    by simp
  have stored: "elastic_force_to_next_node m ?e (spring_constant_of s iss m j)
             (rest_length_of s m j) [0..<?n] = Inr (replicate ?n (0, 0))"
    using sr rest nz by (simp add: spring_constant_of_eq elastic_force_to_next_node_Inr forces)
  have "element_force_contribution s iss j m = Inr m"
    using sr by (simp add: element_force_contribution_def Let_def stored add_aggregate_forces_eq
        aggregate_at_zero)
  with stored show ?thesis by simp
qed

theorem rest_length_zero_force_counterexample:
  "norm_2 (displacement example_point_mesh (elements example_point_mesh ! 0) 0)
     = rest_length_of (example_state example_point_mesh) example_point_mesh 0
   \<and> length (node_ptrs (elements example_point_mesh ! 0)) = 1
   \<and> element_force_contribution (example_state example_point_mesh) 1 0 example_point_mesh
       = Inl DivisionByZero"
  by (simp add: example_point_displacement norm_2_def rest_length_of_def element_force_contribution_eq
      element_defined_def example_state_def Let_def)
    (simp add: example_point_mesh_def)

theorem rest_length_zero_force_witness:
  "norm_2 (displacement example_mesh (elements example_mesh ! 0) 0)
     = rest_length_of example_rest_state example_mesh 0
   \<and> norm_2 (displacement example_mesh (elements example_mesh ! 0) 1)
     = rest_length_of example_rest_state example_mesh 0
   \<and> norm_2 (displacement example_mesh (elements example_mesh ! 0) 2)
     = rest_length_of example_rest_state example_mesh 0
   \<and> norm_2 (displacement example_mesh (elements example_mesh ! 0) 3)
     = rest_length_of example_rest_state example_mesh 0
   \<and> length (node_ptrs (elements example_mesh ! 0)) = 4
   \<and> rest_length_of example_rest_state example_mesh 0 \<noteq> 0
   \<and> element_force_contribution example_rest_state 1 0 example_mesh = Inr example_mesh"
proof -
  have len: "length (node_ptrs (elements example_mesh ! 0)) = 4"
    by (simp add: example_mesh_def)
  have "element_force_contribution example_rest_state 1 0 example_mesh = Inr example_mesh"
    by (rule rest_length_zero_force [OF example_rest(1) example_rest(2), of 1, THEN conjunct2])
  with example_rest len show ?thesis by simp
qed

section \<open>What the one-time setup and the force pass preserve\<close>

lemma same_geometry_refl [simp]: "same_geometry m m"
  by (simp add: same_geometry_def)

lemma same_geometry_trans: "same_geometry m m' \<Longrightarrow> same_geometry m' m'' \<Longrightarrow> same_geometry m m''"
  by (simp add: same_geometry_def)

lemma same_geometry_length: "same_geometry m m' \<Longrightarrow> length (elements m') = length (elements m)"
  by (metis same_geometry_def length_map)

lemma same_geometry_node_ptrs:
  assumes "same_geometry m m'" and "j < length (elements m)"
  shows "node_ptrs (elements m' ! j) = node_ptrs (elements m ! j)"
proof -
  from assms have "j < length (elements m')" by (simp add: same_geometry_length)
  with assms have "map node_ptrs (elements m') ! j = node_ptrs (elements m' ! j)"
    and "map node_ptrs (elements m) ! j = node_ptrs (elements m ! j)"
    by simp_all
  with assms(1) show ?thesis by (simp add: same_geometry_def)
qed

lemma same_geometry_displacement:
  assumes "same_geometry m m'" and "j < length (elements m)"
  shows "displacement m' (elements m' ! j) = displacement m (elements m ! j)"
  using assms same_geometry_node_ptrs [OF assms]
  by (intro ext) (simp add: displacement_def GetNodeLocation_def same_geometry_def)

lemma same_geometry_defined:
  assumes "same_geometry m m'" and "same_parameters s s'" and "j < length (elements m)"
  shows "element_defined s' iss m' j = element_defined s iss m j"
  using assms same_geometry_node_ptrs [OF assms(1,3)] same_geometry_displacement [OF assms(1,3)]
  by (simp add: element_defined_def Let_def same_geometry_def)

lemma aggregate_at_node_ptrs:
  "node_ptrs e' = node_ptrs e \<Longrightarrow> aggregate_at e' forces idxs = aggregate_at e forces idxs"
  unfolding aggregate_at_def by (simp cong: if_cong)

lemma same_geometry_contribution:
  assumes "same_geometry m m'" and "same_parameters s s'" and "j < length (elements m)"
  shows "element_contribution s' iss m' j = element_contribution s iss m j"
proof -
  have "segment_value m' (elements m' ! j) k rest = segment_value m (elements m ! j) k rest" for k rest
    by (intro ext) (simp add: segment_value_def same_geometry_displacement [OF assms(1,3)])
  moreover have "spring_constant_value s' iss m' j = spring_constant_value s iss m j"
    using assms by (simp add: spring_constant_value_def same_geometry_def same_parameters_def)
  moreover have "rest_length_of s' m' j = rest_length_of s m j"
    using assms by (simp add: rest_length_of_def same_geometry_def same_parameters_def Let_def)
  ultimately have "element_forces s' iss m' j = element_forces s iss m j"
    by (simp add: element_forces_def Let_def same_geometry_node_ptrs [OF assms(1,3)])
  then show ?thesis
    unfolding element_contribution_def same_geometry_node_ptrs [OF assms(1,3)]
    by (simp add: aggregate_at_node_ptrs [OF same_geometry_node_ptrs [OF assms(1,3)]])
qed

lemma same_geometry_total:
  assumes "same_geometry m m'" and "same_parameters s s'"
  shows "total_contribution s' iss m' = total_contribution s iss m"
proof (rule ext)
  fix a
  have "(\<Sum>j\<leftarrow>[0..<length (elements m)]. element_contribution s' iss m' j a)
      = (\<Sum>j\<leftarrow>[0..<length (elements m)]. element_contribution s iss m j a)"
    by (rule sum_list_cong) (simp add: same_geometry_contribution [OF assms])
  then show "total_contribution s' iss m' a = total_contribution s iss m a"
    by (simp add: total_contribution_def same_geometry_length [OF assms(1)])
qed

lemma same_geometry_all_defined:
  assumes "same_geometry m m'" and "same_parameters s s'"
  shows "(\<forall>j \<in> set [0..<length (elements m')]. element_defined s' iss m' j)
       = (\<forall>j \<in> set [0..<length (elements m)]. element_defined s iss m j)"
  using same_geometry_defined [OF assms] by (simp add: same_geometry_length [OF assms(1)])

lemma set_regions_eq:
  "set_regions e r idxs h =
     (\<lambda>a. if a \<in> (\<lambda>i. node_ptrs e ! i) ` set idxs then SetRegion r (h a) else h a)"
proof (induction idxs arbitrary: h)
  case Nil
  show ?case by simp
next
  case (Cons i idxs)
  show ?case
    by (rule ext) (auto simp: Cons.IH Let_def SetRegion_def)
qed

lemma set_regions_location [simp]: "location (set_regions e r idxs h a) = location (h a)"
  by (simp add: set_regions_eq SetRegion_def)

lemma set_regions_applied_force [simp]:
  "applied_force (set_regions e r idxs h a) = applied_force (h a)"
  by (simp add: set_regions_eq SetRegion_def)

lemma tag_element_regions_preserves:
  assumes "tag_element_regions m j h = Inr h'"
  shows "location (h' a) = location (h a) \<and> applied_force (h' a) = applied_force (h a)"
  using assms
  by (auto simp: tag_element_regions_def Let_def split: if_splits sum.splits)

lemma tag_regions_loop_preserves:
  "tag_regions_loop m js h = Inr h' \<Longrightarrow>
     location (h' a) = location (h a) \<and> applied_force (h' a) = applied_force (h a)"
proof (induction js arbitrary: h)
  case Nil
  then show ?case by simp
next
  case (Cons j js)
  from Cons.prems obtain h1 where 1: "tag_element_regions m j h = Inr h1"
    and 2: "tag_regions_loop m js h1 = Inr h'"
    by (auto split: sum.splits)
  from Cons.IH [OF 2] tag_element_regions_preserves [OF 1, of a] show ?case by simp
qed

lemma TagNodeRegions_preserves:
  assumes "TagNodeRegions m = Inr m1"
  shows "elements m1 = elements m \<and> same_geometry m m1
       \<and> (\<forall>a. applied_force (nodes m1 a) = applied_force (nodes m a))"
proof -
  from assms obtain h where h: "tag_regions_loop m [0..<length (elements m)] (nodes m) = Inr h"
    and m1: "m1 = m\<lparr>nodes := h\<rparr>"
    by (auto simp: TagNodeRegions_def split: sum.splits)
  from tag_regions_loop_preserves [OF h] m1 show ?thesis
    by (simp add: same_geometry_def)
qed

lemma tag_element_lengths_eq:
  assumes "tag_element_lengths m j e = Inr e'"
  shows "e' = e\<lparr>attributes := attributes e @ [elem_width m j e, elem_width m j e]\<rparr>"
  using assms
  by (auto simp: tag_element_lengths_def elem_width_def AddElementAttribute_def Let_def
      split: if_splits)

lemma tag_lengths_loop_eq:
  "tag_lengths_loop m k es = Inr es' \<Longrightarrow>
     length es' = length es
     \<and> (\<forall>i < length es. es' ! i = (es ! i)\<lparr>attributes := attributes (es ! i)
            @ [elem_width m (k + i) (es ! i), elem_width m (k + i) (es ! i)]\<rparr>)"
proof (induction es arbitrary: k es')
  case Nil
  then show ?case by simp
next
  case (Cons e es)
  from Cons.prems obtain e' es1 where 1: "tag_element_lengths m k e = Inr e'"
    and 2: "tag_lengths_loop m (Suc k) es = Inr es1" and 3: "es' = e' # es1"
    by (auto split: sum.splits)
  from Cons.IH [OF 2] tag_element_lengths_eq [OF 1] 3 show ?case
    by (auto simp: nth_Cons split: nat.splits)
qed

lemma TagApicalAndBasalLengths_eq:
  assumes "TagApicalAndBasalLengths m = Inr m2"
  shows "nodes m2 = nodes m \<and> same_geometry m m2
       \<and> length (elements m2) = length (elements m)
       \<and> (\<forall>j < length (elements m).
             elements m2 ! j = (elements m ! j)\<lparr>attributes := attributes (elements m ! j)
               @ [elem_width m j (elements m ! j), elem_width m j (elements m ! j)]\<rparr>)"
proof -
  from assms obtain es where es: "tag_lengths_loop m 0 (elements m) = Inr es"
    and m2: "m2 = m\<lparr>elements := es\<rparr>"
    by (auto simp: TagApicalAndBasalLengths_def split: sum.splits)
  note l = tag_lengths_loop_eq [OF es]
  have "map node_ptrs es = map node_ptrs (elements m)"
    by (rule nth_equalityI) (use l in auto)
  with l m2 show ?thesis by (simp add: same_geometry_def)
qed

lemma one_time_setup_preserves:
  assumes "one_time_setup pop s = Completed s1"
  shows "mpMesh s1 = Some (mesh_ptr pop) \<and> same_parameters s s1
       \<and> (\<forall>q. q \<noteq> mesh_ptr pop \<longrightarrow> heap s1 q = heap s q)
       \<and> same_geometry (heap s (mesh_ptr pop)) (heap s1 (mesh_ptr pop))
       \<and> (\<forall>a. applied_force (nodes (heap s1 (mesh_ptr pop)) a)
                = applied_force (nodes (heap s (mesh_ptr pop)) a))"
proof (cases "mElementsHaveCorners s1")
  case False
  with assms have "s1 = s\<lparr>mpMesh := Some (mesh_ptr pop), mElementsHaveCorners := False\<rparr>"
    by (auto simp: one_time_setup_def Let_def split: list.splits if_splits sum.splits)
  then show ?thesis by (simp add: same_parameters_def)
next
  case True
  with assms obtain m1 m2 n where 1: "TagNodeRegions (heap s (mesh_ptr pop)) = Inr m1"
    and 2: "TagApicalAndBasalLengths m1 = Inr m2"
    and 3: "s1 = s\<lparr>mpMesh := Some (mesh_ptr pop), mElementsHaveCorners := True,
                   mReferenceLocationInAttributesVector := n,
                   heap := (heap s)(mesh_ptr pop := m2)\<rparr>"
    by (auto simp: one_time_setup_def Let_def split: list.splits if_splits sum.splits)
  from TagNodeRegions_preserves [OF 1] TagApicalAndBasalLengths_eq [OF 2]
  have "same_geometry (heap s (mesh_ptr pop)) m2"
    and "\<forall>a. applied_force (nodes m2 a) = applied_force (nodes (heap s (mesh_ptr pop)) a)"
    by (auto intro: same_geometry_trans)
  with 3 show ?thesis by (simp add: same_parameters_def)
qed

lemma completed_call:
  assumes "AddImmersedBoundaryForceContribution pop s = Completed s1"
  shows "\<exists>p. mpMesh s1 = Some p
           \<and> (\<forall>j \<in> set [0..<length (elements (heap s1 p))].
                 element_defined s1 (intrinsic_spacing pop * intrinsic_spacing pop) (heap s1 p) j)
           \<and> (\<forall>q a. applied_force (nodes (heap s1 q) a)
                 = applied_force (nodes (heap s q) a)
                   + (if q = p
                      then total_contribution s1 (intrinsic_spacing pop * intrinsic_spacing pop)
                             (heap s1 p) a
                      else 0))"
proof -
  let ?iss = "intrinsic_spacing pop * intrinsic_spacing pop"
  have step: "\<exists>p. mpMesh s1 = Some p
           \<and> (\<forall>j \<in> set [0..<length (elements (heap s1 p))]. element_defined s1 ?iss (heap s1 p) j)
           \<and> (\<forall>q a. applied_force (nodes (heap s1 q) a)
                 = applied_force (nodes (heap s0 q) a)
                   + (if q = p then total_contribution s1 ?iss (heap s1 p) a else 0))"
    if fc: "force_computation pop s0 = Completed s1" for s0
  proof -
    from fc obtain p where p: "mpMesh s0 = Some p"
      by (auto simp: force_computation_eq split: option.splits)
    let ?m = "heap s0 p"
    from fc p have defd: "\<forall>j \<in> set [0..<length (elements ?m)]. element_defined s0 ?iss ?m j"
      by (simp add: force_computation_eq split: if_splits)
    with fc p have s1: "s1 = s0\<lparr>heap := (heap s0)(p := ?m\<lparr>nodes :=
                 add_forces (total_contribution s0 ?iss ?m) (nodes ?m)\<rparr>)\<rparr>"
      by (simp add: force_computation_eq)
    have g: "same_geometry ?m (heap s1 p)" and par: "same_parameters s0 s1"
      by (simp_all add: s1 same_geometry_def same_parameters_def add_forces_apply)
    have "mpMesh s1 = Some p" by (simp add: s1 p)
    moreover have "\<forall>j \<in> set [0..<length (elements (heap s1 p))]. element_defined s1 ?iss (heap s1 p) j"
      using defd same_geometry_all_defined [OF g par, of ?iss] by simp
    moreover have "applied_force (nodes (heap s1 q) a) = applied_force (nodes (heap s0 q) a)
                   + (if q = p then total_contribution s1 ?iss (heap s1 p) a else 0)" for q a
      unfolding same_geometry_total [OF g par]
      by (simp add: s1 add_forces_apply)
    ultimately show ?thesis by blast
  qed
  show ?thesis
  proof (cases "mpMesh s")
    case (Some p)
    with assms have "force_computation pop s = Completed s1"
      by (simp add: AddImmersedBoundaryForceContribution_def)
    from step [OF this] show ?thesis .
  next
    case None
    with assms obtain s0 where su: "one_time_setup pop s = Completed s0"
      and fc: "force_computation pop s0 = Completed s1"
      by (auto simp: AddImmersedBoundaryForceContribution_def split: outcome.splits)
    from step [OF fc] obtain p where p: "mpMesh s1 = Some p"
      and d: "\<forall>j \<in> set [0..<length (elements (heap s1 p))]. element_defined s1 ?iss (heap s1 p) j"
      and f: "\<And>q a. applied_force (nodes (heap s1 q) a) = applied_force (nodes (heap s0 q) a)
                   + (if q = p then total_contribution s1 ?iss (heap s1 p) a else 0)"
      by blast
    from one_time_setup_preserves [OF su]
    have "applied_force (nodes (heap s0 q) a) = applied_force (nodes (heap s q) a)" for q a
      by (cases "q = mesh_ptr pop") auto
    with p d f show ?thesis by auto
  qed
qed

lemma reset_forces_simps:
  "mpMesh (reset_forces s) = mpMesh s"
  "same_parameters s (reset_forces s)"
  "same_geometry (heap s q) (heap (reset_forces s) q)"
  "applied_force (nodes (heap (reset_forces s) q) a) = (0, 0)"
  by (simp_all add: reset_forces_def same_parameters_def same_geometry_def)

section \<open>When the one-time setup succeeds\<close>

lemma tag_regions_loop_total:
  assumes "\<forall>j \<in> set js. membrane_index m = j
             \<or> (\<forall>k < 4. \<exists>i. corner_local_index (elements m ! j) k = Inr i)"
  shows "\<exists>h'. tag_regions_loop m js h = Inr h'"
  using assms
proof (induction js arbitrary: h)
  case Nil
  show ?case by simp
next
  case (Cons j js)
  have "\<exists>h1. tag_element_regions m j h = Inr h1"
  proof (cases "membrane_index m = j")
    case True
    then show ?thesis by (simp add: tag_element_regions_def Let_def)
  next
    case False
    with Cons.prems have c: "\<forall>k < 4. \<exists>i. corner_local_index (elements m ! j) k = Inr i" by simp
    have lt: "(0::nat) < 4" "(1::nat) < 4" "(2::nat) < 4" "(3::nat) < 4" by simp_all
    from c lt(1) obtain i0 where "corner_local_index (elements m ! j) 0 = Inr i0" by blast
    moreover from c lt(2) obtain i1 where "corner_local_index (elements m ! j) 1 = Inr i1" by blast
    moreover from c lt(3) obtain i2 where "corner_local_index (elements m ! j) 2 = Inr i2" by blast
    moreover from c lt(4) obtain i3 where "corner_local_index (elements m ! j) 3 = Inr i3" by blast
    ultimately show ?thesis using False by (simp add: tag_element_regions_def Let_def)
  qed
  then obtain h1 where "tag_element_regions m j h = Inr h1" ..
  moreover from Cons.IH [of h1] Cons.prems obtain h' where "tag_regions_loop m js h1 = Inr h'" by auto
  ultimately show ?case by simp
qed

lemma tag_lengths_loop_total:
  assumes "\<forall>i < length es. k + i = membrane_index m \<or> node_ptrs (es ! i) \<noteq> []"
  shows "\<exists>es'. tag_lengths_loop m k es = Inr es'"
  using assms
proof (induction es arbitrary: k)
  case Nil
  show ?case by simp
next
  case (Cons e es)
  from Cons.prems have "k = membrane_index m \<or> node_ptrs e \<noteq> []" by auto
  then have "\<exists>e'. tag_element_lengths m k e = Inr e'"
    by (auto simp: tag_element_lengths_def Let_def)
  then obtain e' where 1: "tag_element_lengths m k e = Inr e'" ..
  have "\<forall>i < length es. Suc k + i = membrane_index m \<or> node_ptrs (es ! i) \<noteq> []"
  proof (intro allI impI)
    fix i assume "i < length es"
    then have "Suc i < length (e # es)" by simp
    with Cons.prems have "k + Suc i = membrane_index m \<or> node_ptrs ((e # es) ! Suc i) \<noteq> []"
      by blast
    then show "Suc k + i = membrane_index m \<or> node_ptrs (es ! i) \<noteq> []" by simp
  qed
  from Cons.IH [OF this] obtain es' where "tag_lengths_loop m (Suc k) es = Inr es'" ..
  with 1 show ?case by simp
qed

lemma example_corner_local_index:
  "\<forall>k < 4. \<exists>i. corner_local_index (elements example_mesh ! 0) k = Inr i"
  by (simp add: corner_local_index_def corner_def GetNodeLocalIndex_def example_mesh_def
      less_Suc_eq eval_nat_numeral)

lemma example_first_call:
  "\<exists>s1. AddImmersedBoundaryForceContribution example_population (example_state example_mesh)
          = Completed s1"
proof -
  let ?s = "example_state example_mesh"
  have hp: "heap ?s (mesh_ptr example_population) = example_mesh" by (simp add: example_state_def)
  have "\<forall>j \<in> set [0..<length (elements example_mesh)]. membrane_index example_mesh = j
             \<or> (\<forall>k < 4. \<exists>i. corner_local_index (elements example_mesh ! j) k = Inr i)"
    using example_corner_local_index by (auto simp: example_mesh_def less_Suc_eq)
  from tag_regions_loop_total [OF this, of "nodes example_mesh"] obtain h'
    where "tag_regions_loop example_mesh [0..<length (elements example_mesh)] (nodes example_mesh) = Inr h'" ..
  then obtain m1 where m1: "TagNodeRegions example_mesh = Inr m1"
    by (simp add: TagNodeRegions_def)
  from TagNodeRegions_preserves [OF m1] have e1: "elements m1 = elements example_mesh"
    and mi: "membrane_index m1 = membrane_index example_mesh"
    by (simp_all add: same_geometry_def)
  have "\<forall>i < length (elements m1). 0 + i = membrane_index m1 \<or> node_ptrs (elements m1 ! i) \<noteq> []"
    unfolding e1 mi by (simp add: example_mesh_def less_Suc_eq)
  from tag_lengths_loop_total [OF this] obtain es'
    where "tag_lengths_loop m1 0 (elements m1) = Inr es'" ..
  then obtain m2 where m2: "TagApicalAndBasalLengths m1 = Inr m2"
    by (simp add: TagApicalAndBasalLengths_def)
  have el: "elements example_mesh =
       [\<lparr>node_ptrs = [0, 1, 2, 3], corner_nodes = [1, 0, 3, 2], attributes = []\<rparr>,
        \<lparr>node_ptrs = [4, 5, 6, 7], corner_nodes = [5, 4, 7, 6], attributes = []\<rparr>]"
    by (simp add: example_mesh_def)
  obtain s0 where s0: "one_time_setup example_population ?s = Completed s0"
    by (simp add: one_time_setup_def Let_def hp el) (simp add: m1 m2 el [symmetric])
  from one_time_setup_preserves [OF s0] have p: "mpMesh s0 = Some 0"
    and par: "same_parameters ?s s0" and g: "same_geometry example_mesh (heap s0 0)"
    by (simp_all add: example_population_def example_state_def)
  have "\<forall>j \<in> set [0..<length (elements example_mesh)]. element_defined ?s 1 example_mesh j"
    using example_defined [of ?s] by (simp add: example_mesh_def atLeastLessThanSuc)
  with same_geometry_all_defined [OF g par, of 1]
  have "\<forall>j \<in> set [0..<length (elements (heap s0 0))]. element_defined s0 1 (heap s0 0) j"
    by simp
  with p obtain s1 where "force_computation example_population s0 = Completed s1"
    by (simp add: force_computation_eq example_population_def)
  with s0 show ?thesis
    by (simp add: AddImmersedBoundaryForceContribution_def example_state_def)
qed

section \<open>Determinism of the force computation\<close>

text \<open>
  Claim C9. When a force-contribution call has completed and the force accumulators are
  then reset, a second call with the same population completes too and adds to every
  node exactly the force the first call added: the added force depends on the node
  positions, the element rings and the parameters only, not on the accumulators, and not
  on what the one-time setup has written.
\<close>

theorem force_computation_deterministic:
  assumes "AddImmersedBoundaryForceContribution pop s = Completed s1"
  shows "\<exists>s2. AddImmersedBoundaryForceContribution pop (reset_forces s1) = Completed s2
           \<and> (\<forall>q a. applied_force (nodes (heap s2 q) a) - applied_force (nodes (heap (reset_forces s1) q) a)
                    = applied_force (nodes (heap s1 q) a) - applied_force (nodes (heap s q) a))"
proof -
  let ?iss = "intrinsic_spacing pop * intrinsic_spacing pop"
  let ?r = "reset_forces s1"
  from completed_call [OF assms] obtain p where p: "mpMesh s1 = Some p"
    and d: "\<forall>j \<in> set [0..<length (elements (heap s1 p))]. element_defined s1 ?iss (heap s1 p) j"
    and f: "\<And>q a. applied_force (nodes (heap s1 q) a) = applied_force (nodes (heap s q) a)
                   + (if q = p then total_contribution s1 ?iss (heap s1 p) a else 0)"
    by blast
  have pr: "mpMesh ?r = Some p" by (simp add: reset_forces_simps p)
  have dr: "\<forall>j \<in> set [0..<length (elements (heap ?r p))]. element_defined ?r ?iss (heap ?r p) j"
    using d same_geometry_all_defined [OF reset_forces_simps(3) [of s1 p] reset_forces_simps(2) [of s1], of ?iss]
    by simp
  from pr dr obtain s2 where c2: "AddImmersedBoundaryForceContribution pop ?r = Completed s2"
    by (simp add: AddImmersedBoundaryForceContribution_def force_computation_eq)
  from completed_call [OF c2] pr obtain p' where p': "mpMesh s2 = Some p'"
    and f2: "\<And>q a. applied_force (nodes (heap s2 q) a) = applied_force (nodes (heap ?r q) a)
                   + (if q = p' then total_contribution s2 ?iss (heap s2 p') a else 0)"
    by blast
  from c2 pr have s2: "s2 = ?r\<lparr>heap := (heap ?r)(p := (heap ?r p)\<lparr>nodes :=
                 add_forces (total_contribution ?r ?iss (heap ?r p)) (nodes (heap ?r p))\<rparr>)\<rparr>"
    by (simp add: AddImmersedBoundaryForceContribution_def force_computation_eq split: if_splits)
  then have "mpMesh s2 = Some p" by (simp add: pr)
  with p' have pp: "p' = p" by simp
  have g2: "same_geometry (heap s1 p) (heap s2 p)" and par2: "same_parameters s1 s2"
    by (simp_all add: s2 reset_forces_def same_geometry_def same_parameters_def add_forces_apply)
  have "applied_force (nodes (heap s2 q) a) - applied_force (nodes (heap ?r q) a)
          = applied_force (nodes (heap s1 q) a) - applied_force (nodes (heap s q) a)" for q a
    using f [of q a] f2 [of q a] same_geometry_total [OF g2 par2, of ?iss]
    by (simp add: pp)
  with c2 show ?thesis by blast
qed

theorem force_computation_deterministic_witness:
  "\<exists>s1 s2. AddImmersedBoundaryForceContribution example_population (example_state example_mesh)
              = Completed s1
         \<and> AddImmersedBoundaryForceContribution example_population (reset_forces s1) = Completed s2
         \<and> applied_force (nodes (heap s2 0) 0) - applied_force (nodes (heap (reset_forces s1) 0) 0)
             = applied_force (nodes (heap s1 0) 0)
               - applied_force (nodes (heap (example_state example_mesh) 0) 0)"
proof -
  from example_first_call obtain s1
    where c: "AddImmersedBoundaryForceContribution example_population (example_state example_mesh)
                = Completed s1" ..
  from force_computation_deterministic [OF c] c show ?thesis by blast
qed

section \<open>Region tagging\<close>

lemma local_index_Some:
  "local_index ps g = Some i \<Longrightarrow> i < length ps \<and> ps ! i = g"
  by (induction ps arbitrary: i) (auto split: if_splits)

lemma corner_local_index_less:
  "corner_local_index e k = Inr i \<Longrightarrow> i < length (node_ptrs e)"
  by (auto simp: corner_local_index_def GetNodeLocalIndex_def split: sum.splits option.splits
      dest: local_index_Some)

lemma set_regions_region:
  "region (set_regions e r idxs h a) =
     (if a \<in> (\<lambda>i. node_ptrs e ! i) ` set idxs then r else region (h a))"
  by (simp add: set_regions_eq SetRegion_def)

lemma set_regions_outside:
  assumes "a \<notin> set (node_ptrs e)" and "\<forall>i \<in> set idxs. i < length (node_ptrs e)"
  shows "set_regions e r idxs h a = h a"
proof -
  from assms have "a \<notin> (\<lambda>i. node_ptrs e ! i) ` set idxs" by (metis imageE nth_mem)
  then show ?thesis by (simp add: set_regions_eq)
qed

lemma nth_image_upt:
  assumes "distinct ps" and "i < length ps" and "hi \<le> length ps"
  shows "(ps ! i \<in> (\<lambda>k. ps ! k) ` set [lo..<hi]) = (lo \<le> i \<and> i < hi)"
proof
  assume "ps ! i \<in> (\<lambda>k. ps ! k) ` set [lo..<hi]"
  then obtain k where k: "lo \<le> k" "k < hi" "ps ! i = ps ! k" by auto
  with assms have "i = k" by (simp add: nth_eq_iff_index_eq)
  with k show "lo \<le> i \<and> i < hi" by simp
next
  assume "lo \<le> i \<and> i < hi"
  then show "ps ! i \<in> (\<lambda>k. ps ! k) ` set [lo..<hi]" by simp
qed

lemma tag_element_regions_outside:
  assumes "tag_element_regions m j h = Inr h'" and "a \<notin> set (node_ptrs (elements m ! j))"
  shows "h' a = h a"
proof (cases "membrane_index m = j")
  case True
  with assms show ?thesis
    by (auto simp: tag_element_regions_def Let_def set_regions_outside)
next
  case False
  let ?e = "elements m ! j"
  from assms(1) False obtain i0 i1 i2 i3 where c: "corner_local_index ?e 0 = Inr i0"
      "corner_local_index ?e 1 = Inr i1" "corner_local_index ?e 2 = Inr i2"
      "corner_local_index ?e 3 = Inr i3"
    by (auto simp: tag_element_regions_def Let_def split: sum.splits)
  note lt = c [THEN corner_local_index_less]
  from assms(1) False c have h': "h' = set_regions ?e msLat [i2 + 1..<length (node_ptrs ?e)]
        (set_regions ?e msBas [i3..<i2 + 1]
          (set_regions ?e msLat [i0 + 1..<i3]
            (set_regions ?e msApi [i1..<i0 + 1]
              (set_regions ?e msLat [0..<i1] h))))"
    by (simp add: tag_element_regions_def Let_def)
  from lt assms(2) show ?thesis
    unfolding h' by (simp add: set_regions_outside)
qed

lemma tag_element_regions_region:
  assumes "tag_element_regions m j h = Inr h'" and "distinct (node_ptrs (elements m ! j))"
    and "i < length (node_ptrs (elements m ! j))"
  shows "(j = membrane_index m \<longrightarrow> region (h' (node_ptrs (elements m ! j) ! i)) = msBas)
       \<and> (j \<noteq> membrane_index m \<longrightarrow>
            (\<exists>i0 i1 i2 i3.
               GetNodeLocalIndex (elements m ! j) (corner_nodes (elements m ! j) ! 0) = Some i0
             \<and> GetNodeLocalIndex (elements m ! j) (corner_nodes (elements m ! j) ! 1) = Some i1
             \<and> GetNodeLocalIndex (elements m ! j) (corner_nodes (elements m ! j) ! 2) = Some i2
             \<and> GetNodeLocalIndex (elements m ! j) (corner_nodes (elements m ! j) ! 3) = Some i3
             \<and> region (h' (node_ptrs (elements m ! j) ! i))
                 = assign_ranges (spec_region_ranges i0 i1 i2 i3 (length (node_ptrs (elements m ! j)))) i
                     (region (h (node_ptrs (elements m ! j) ! i)))))"
proof (cases "membrane_index m = j")
  case True
  with assms show ?thesis
    by (auto simp: tag_element_regions_def Let_def set_regions_region)
next
  case False
  let ?e = "elements m ! j"
  let ?n = "length (node_ptrs ?e)"
  from assms(1) False obtain i0 i1 i2 i3 where c: "corner_local_index ?e 0 = Inr i0"
      "corner_local_index ?e 1 = Inr i1" "corner_local_index ?e 2 = Inr i2"
      "corner_local_index ?e 3 = Inr i3"
    by (auto simp: tag_element_regions_def Let_def split: sum.splits)
  note lt = c [THEN corner_local_index_less]
  from c have g: "GetNodeLocalIndex ?e (corner_nodes ?e ! 0) = Some i0"
      "GetNodeLocalIndex ?e (corner_nodes ?e ! 1) = Some i1"
      "GetNodeLocalIndex ?e (corner_nodes ?e ! 2) = Some i2"
      "GetNodeLocalIndex ?e (corner_nodes ?e ! 3) = Some i3"
    by (auto simp: corner_local_index_def corner_def split: if_splits option.splits)
  from assms(1) False c have h': "h' = set_regions ?e msLat [i2 + 1..<?n]
        (set_regions ?e msBas [i3..<i2 + 1]
          (set_regions ?e msLat [i0 + 1..<i3]
            (set_regions ?e msApi [i1..<i0 + 1]
              (set_regions ?e msLat [0..<i1] h))))"
    by (simp add: tag_element_regions_def Let_def)
  have mem: "(node_ptrs ?e ! i \<in> (\<lambda>k. node_ptrs ?e ! k) ` set [lo..<hi]) = (lo \<le> i \<and> i < hi)"
    if "hi \<le> ?n" for lo hi
    using assms(2,3) that by (rule nth_image_upt)
  from lt have b: "i1 \<le> ?n" "i0 + 1 \<le> ?n" "i3 \<le> ?n" "i2 + 1 \<le> ?n" "?n \<le> ?n" by simp_all
  have "region (h' (node_ptrs ?e ! i))
          = assign_ranges (spec_region_ranges i0 i1 i2 i3 ?n) i (region (h (node_ptrs ?e ! i)))"
    unfolding h' set_regions_region mem [OF b(1)] mem [OF b(2)] mem [OF b(3)] mem [OF b(4)] mem [OF b(5)]
    by (simp add: spec_region_ranges_def)
  with g False show ?thesis by auto
qed

lemma tag_regions_loop_append:
  "tag_regions_loop m (xs @ ys) h =
     (case tag_regions_loop m xs h of Inl x \<Rightarrow> Inl x | Inr h1 \<Rightarrow> tag_regions_loop m ys h1)"
  by (induction xs arbitrary: h) (simp_all split: sum.splits)

lemma tag_regions_loop_outside:
  "tag_regions_loop m js h = Inr h' \<Longrightarrow>
   \<forall>j \<in> set js. a \<notin> set (node_ptrs (elements m ! j)) \<Longrightarrow> h' a = h a"
proof (induction js arbitrary: h)
  case Nil
  then show ?case by simp
next
  case (Cons j js)
  from Cons.prems(1) obtain h1 where 1: "tag_element_regions m j h = Inr h1"
    and 2: "tag_regions_loop m js h1 = Inr h'"
    by (auto split: sum.splits)
  from Cons.prems(2) have "h1 a = h a" by (simp add: tag_element_regions_outside [OF 1])
  moreover from Cons.IH [OF 2] Cons.prems(2) have "h' a = h1 a" by simp
  ultimately show ?case by simp
qed

lemma unshared_nodes_distinct:
  assumes "unshared_nodes m" and "j < length (elements m)"
  shows "distinct (node_ptrs (elements m ! j))"
proof -
  from assms(2) have "node_ptrs (elements m ! j) \<in> set (map node_ptrs (elements m))"
    by (metis length_map nth_map nth_mem)
  with assms(1) show ?thesis
    by (simp add: unshared_nodes_def distinct_concat_iff del: set_map)
qed

lemma unshared_nodes_elsewhere:
  assumes "unshared_nodes m" and "j < length (elements m)" and "i < length (node_ptrs (elements m ! j))"
    and "j' < length (elements m)" and "j' \<noteq> j"
  shows "node_ptrs (elements m ! j) ! i \<notin> set (node_ptrs (elements m ! j'))"
proof
  assume "node_ptrs (elements m ! j) ! i \<in> set (node_ptrs (elements m ! j'))"
  then obtain i' where "i' < length (node_ptrs (elements m ! j'))"
    and "node_ptrs (elements m ! j') ! i' = node_ptrs (elements m ! j) ! i"
    by (auto simp: in_set_conv_nth)
  with distinct_concat_nth [of "map node_ptrs (elements m)" j' i' j i] assms
  show False by (simp add: unshared_nodes_def)
qed

lemma assign_ranges_ordered:
  assumes "i1 \<le> i0 + 1 \<and> i0 + 1 \<le> i3 \<and> i3 \<le> i2 + 1" and "i < n"
  shows "assign_ranges (spec_region_ranges i0 i1 i2 i3 n) i r
           = (if i < i1 then msLat else if i < i0 + 1 then msApi
              else if i < i3 then msLat else if i < i2 + 1 then msBas else msLat)"
  using assms by (auto simp: spec_region_ranges_def)

lemma example_tag_regions: "\<exists>m'. TagNodeRegions example_mesh = Inr m'"
proof -
  have "\<forall>j \<in> set [0..<length (elements example_mesh)]. membrane_index example_mesh = j
             \<or> (\<forall>k < 4. \<exists>i. corner_local_index (elements example_mesh ! j) k = Inr i)"
    using example_corner_local_index by (auto simp: example_mesh_def less_Suc_eq)
  from tag_regions_loop_total [OF this, of "nodes example_mesh"] obtain h'
    where "tag_regions_loop example_mesh [0..<length (elements example_mesh)] (nodes example_mesh) = Inr h'" ..
  then show ?thesis by (simp add: TagNodeRegions_def)
qed

text \<open>
  Claim C3. When region tagging has run on a mesh whose nodes are unshared, every node of
  the membrane element carries the Basal tag, and for every other element the four corners
  have local indices \<open>idx(c0)\<close> to \<open>idx(c3)\<close> and the node at local index \<open>i\<close> carries the tag
  it has after the ranges \<open>[0, idx(c1))\<close> Lateral, \<open>[idx(c1), idx(c0)+1)\<close> Apical,
  \<open>[idx(c0)+1, idx(c3))\<close> Lateral, \<open>[idx(c3), idx(c2)+1)\<close> Basal and
  \<open>[idx(c2)+1, num_nodes)\<close> Lateral have been assigned in this order, a range with crossing
  bounds being empty. When the bounds do not cross, the ranges partition the local indices
  and every node carries the tag of the one range its index lies in.
\<close>

theorem region_tagging:
  assumes "TagNodeRegions m = Inr m'" and "unshared_nodes m"
    and "j < length (elements m)" and "i < length (node_ptrs (elements m ! j))"
  shows "(j = membrane_index m \<longrightarrow> region (nodes m' (node_ptrs (elements m ! j) ! i)) = msBas)
       \<and> (j \<noteq> membrane_index m \<longrightarrow>
            (\<exists>i0 i1 i2 i3.
               GetNodeLocalIndex (elements m ! j) (corner_nodes (elements m ! j) ! 0) = Some i0
             \<and> GetNodeLocalIndex (elements m ! j) (corner_nodes (elements m ! j) ! 1) = Some i1
             \<and> GetNodeLocalIndex (elements m ! j) (corner_nodes (elements m ! j) ! 2) = Some i2
             \<and> GetNodeLocalIndex (elements m ! j) (corner_nodes (elements m ! j) ! 3) = Some i3
             \<and> region (nodes m' (node_ptrs (elements m ! j) ! i))
                 = assign_ranges (spec_region_ranges i0 i1 i2 i3 (length (node_ptrs (elements m ! j)))) i
                     (region (nodes m (node_ptrs (elements m ! j) ! i)))
             \<and> (i1 \<le> i0 + 1 \<and> i0 + 1 \<le> i3 \<and> i3 \<le> i2 + 1 \<longrightarrow>
                  region (nodes m' (node_ptrs (elements m ! j) ! i))
                    = (if i < i1 then msLat else if i < i0 + 1 then msApi
                       else if i < i3 then msLat else if i < i2 + 1 then msBas else msLat))))"
proof -
  let ?a = "node_ptrs (elements m ! j) ! i"
  let ?N = "length (elements m)"
  from assms(1) obtain h' where loop: "tag_regions_loop m [0..<?N] (nodes m) = Inr h'"
    and m': "m' = m\<lparr>nodes := h'\<rparr>"
    by (auto simp: TagNodeRegions_def split: sum.splits)
  from assms(3) have split: "[0..<?N] = [0..<j] @ [j] @ [Suc j..<?N]"
    by (metis append_Cons append_Nil le_add1 less_imp_add_positive upt_add_eq_append upt_conv_Cons zero_le)
  from loop obtain h1 h2 where 1: "tag_regions_loop m [0..<j] (nodes m) = Inr h1"
    and 2: "tag_element_regions m j h1 = Inr h2"
    and 3: "tag_regions_loop m [Suc j..<?N] h2 = Inr h'"
    unfolding split by (auto simp: tag_regions_loop_append split: sum.splits)
  have other: "?a \<notin> set (node_ptrs (elements m ! j'))" if "j' < ?N" "j' \<noteq> j" for j'
    using assms(2,3,4) that by (rule unshared_nodes_elsewhere)
  have before: "h1 ?a = nodes m ?a"
  proof (rule tag_regions_loop_outside [OF 1], rule ballI)
    fix j' assume "j' \<in> set [0..<j]"
    with assms(3) have "j' < ?N" "j' \<noteq> j" by simp_all
    then show "?a \<notin> set (node_ptrs (elements m ! j'))" by (rule other)
  qed
  have after: "h' ?a = h2 ?a"
  proof (rule tag_regions_loop_outside [OF 3], rule ballI)
    fix j' assume "j' \<in> set [Suc j..<?N]"
    then have "j' < ?N" "j' \<noteq> j" by simp_all
    then show "?a \<notin> set (node_ptrs (elements m ! j'))" by (rule other)
  qed
  have eq: "region (nodes m' ?a) = region (h2 ?a)" by (simp add: m' after)
  note r = tag_element_regions_region [OF 2 unshared_nodes_distinct [OF assms(2,3)] assms(4)]
  show ?thesis
  proof (intro conjI impI)
    assume "j = membrane_index m"
    with r show "region (nodes m' ?a) = msBas" unfolding eq by blast
  next
    assume "j \<noteq> membrane_index m"
    with r obtain i0 i1 i2 i3
      where g: "GetNodeLocalIndex (elements m ! j) (corner_nodes (elements m ! j) ! 0) = Some i0"
        "GetNodeLocalIndex (elements m ! j) (corner_nodes (elements m ! j) ! 1) = Some i1"
        "GetNodeLocalIndex (elements m ! j) (corner_nodes (elements m ! j) ! 2) = Some i2"
        "GetNodeLocalIndex (elements m ! j) (corner_nodes (elements m ! j) ! 3) = Some i3"
      and t: "region (h2 ?a)
                 = assign_ranges (spec_region_ranges i0 i1 i2 i3 (length (node_ptrs (elements m ! j)))) i
                     (region (h1 ?a))"
      by blast
    from t have t': "region (nodes m' ?a)
                 = assign_ranges (spec_region_ranges i0 i1 i2 i3 (length (node_ptrs (elements m ! j)))) i
                     (region (nodes m ?a))"
      unfolding eq before .
    have "region (nodes m' ?a)
            = (if i < i1 then msLat else if i < i0 + 1 then msApi
               else if i < i3 then msLat else if i < i2 + 1 then msBas else msLat)"
      if "i1 \<le> i0 + 1 \<and> i0 + 1 \<le> i3 \<and> i3 \<le> i2 + 1"
      unfolding t' using that assms(4) by (rule assign_ranges_ordered)
    with g t' show "\<exists>i0 i1 i2 i3.
               GetNodeLocalIndex (elements m ! j) (corner_nodes (elements m ! j) ! 0) = Some i0
             \<and> GetNodeLocalIndex (elements m ! j) (corner_nodes (elements m ! j) ! 1) = Some i1
             \<and> GetNodeLocalIndex (elements m ! j) (corner_nodes (elements m ! j) ! 2) = Some i2
             \<and> GetNodeLocalIndex (elements m ! j) (corner_nodes (elements m ! j) ! 3) = Some i3
             \<and> region (nodes m' ?a)
                 = assign_ranges (spec_region_ranges i0 i1 i2 i3 (length (node_ptrs (elements m ! j)))) i
                     (region (nodes m ?a))
             \<and> (i1 \<le> i0 + 1 \<and> i0 + 1 \<le> i3 \<and> i3 \<le> i2 + 1 \<longrightarrow>
                  region (nodes m' ?a)
                    = (if i < i1 then msLat else if i < i0 + 1 then msApi
                       else if i < i3 then msLat else if i < i2 + 1 then msBas else msLat))"
      by blast
  qed
qed

theorem region_tagging_witness:
  "\<exists>m'. TagNodeRegions example_mesh = Inr m' \<and> unshared_nodes example_mesh
      \<and> region (nodes m' 0) = msApi \<and> region (nodes m' 2) = msBas \<and> region (nodes m' 4) = msBas"
proof -
  from example_tag_regions obtain m' where m': "TagNodeRegions example_mesh = Inr m'" ..
  have l: "0 < length (elements example_mesh)" "1 < length (elements example_mesh)"
    "0 < length (node_ptrs (elements example_mesh ! 0))"
    "2 < length (node_ptrs (elements example_mesh ! 0))"
    "0 < length (node_ptrs (elements example_mesh ! 1))"
    by (simp_all add: example_mesh_def)
  have idx: "GetNodeLocalIndex (elements example_mesh ! 0) (corner_nodes (elements example_mesh ! 0) ! 0) = Some 1"
    "GetNodeLocalIndex (elements example_mesh ! 0) (corner_nodes (elements example_mesh ! 0) ! 1) = Some 0"
    "GetNodeLocalIndex (elements example_mesh ! 0) (corner_nodes (elements example_mesh ! 0) ! 2) = Some 3"
    "GetNodeLocalIndex (elements example_mesh ! 0) (corner_nodes (elements example_mesh ! 0) ! 3) = Some 2"
    by (simp_all add: example_mesh_def GetNodeLocalIndex_def)
  have p: "node_ptrs (elements example_mesh ! 0) ! 0 = 0" "node_ptrs (elements example_mesh ! 0) ! 2 = 2"
    "node_ptrs (elements example_mesh ! 1) ! 0 = 4" "length (node_ptrs (elements example_mesh ! 0)) = 4"
    "membrane_index example_mesh = 1"
    by (simp_all add: example_mesh_def)
  from region_tagging [OF m' example_unshared l(1) l(3)]
  have a: "region (nodes m' 0) = msApi"
    unfolding p idx by (auto simp: spec_region_ranges_def msApi_def msLat_def msBas_def)
  from region_tagging [OF m' example_unshared l(1) l(4)]
  have b: "region (nodes m' 2) = msBas"
    unfolding p idx by (auto simp: spec_region_ranges_def msApi_def msLat_def msBas_def)
  from region_tagging [OF m' example_unshared l(2) l(5)]
  have c: "region (nodes m' 4) = msBas"
    unfolding p by simp
  from m' example_unshared a b c show ?thesis by blast
qed

text \<open>
  Claim C4, amended. For a non-membrane element with 12 nodes whose corner markers, stored
  in the order apical-left, apical-right, basal-right, basal-left, sit at local indices
  5, 2, 11, 8, region tagging assigns: nodes 0 and 1 Lateral, nodes 2 to 5 Apical, nodes 6
  and 7 Lateral, nodes 8 to 11 Basal. With the markers at local indices 2, 5, 8, 11 in
  that order, the apical and the basal range are empty and all twelve nodes are Lateral.
\<close>

theorem twelve_node_example:
  "tagged_regions (TagNodeRegions (example_cell_mesh [5, 2, 11, 8])) [0, 1, 2, 3, 4, 5, 6, 7, 8, 9, 10, 11]
     = Some [msLat, msLat, msApi, msApi, msApi, msApi, msLat, msLat, msBas, msBas, msBas, msBas]
   \<and> tagged_regions (TagNodeRegions (example_cell_mesh [2, 5, 8, 11])) [0, 1, 2, 3, 4, 5, 6, 7, 8, 9, 10, 11]
     = Some [msLat, msLat, msLat, msLat, msLat, msLat, msLat, msLat, msLat, msLat, msLat, msLat]"
  by code_simp

theorem twelve_node_example_counterexample:
  "tagged_regions (TagNodeRegions (example_cell_mesh [2, 5, 8, 11])) [0, 1, 2, 3, 4, 5, 6, 7, 8, 9, 10, 11]
     = Some [msLat, msLat, msLat, msLat, msLat, msLat, msLat, msLat, msLat, msLat, msLat, msLat]
   \<and> msLat \<noteq> msApi \<and> msLat \<noteq> msBas"
  by code_simp

section \<open>Baseline lengths\<close>

lemma elem_width_geometry: "same_geometry m m1 \<Longrightarrow> elem_width m1 j e = elem_width m j e"
  by (simp add: elem_width_def same_geometry_def)

lemma first_call_with_corners:
  assumes none: "mpMesh s = None"
    and four: "length (corner_nodes (elements (heap s (mesh_ptr pop)) ! 0)) = 4"
    and call: "AddImmersedBoundaryForceContribution pop s = Completed s'"
  shows "mpMesh s' = Some (mesh_ptr pop)
       \<and> length (elements (heap s' (mesh_ptr pop))) = length (elements (heap s (mesh_ptr pop)))
       \<and> (\<forall>j < length (elements (heap s (mesh_ptr pop))).
             length (attributes (elements (heap s (mesh_ptr pop)) ! j))
               = mReferenceLocationInAttributesVector s'
           \<and> attributes (elements (heap s' (mesh_ptr pop)) ! j)
               = attributes (elements (heap s (mesh_ptr pop)) ! j)
                 @ [elem_width (heap s (mesh_ptr pop)) j (elements (heap s (mesh_ptr pop)) ! j),
                    elem_width (heap s (mesh_ptr pop)) j (elements (heap s (mesh_ptr pop)) ! j)])"
proof -
  let ?p = "mesh_ptr pop"
  let ?m = "heap s ?p"
  from none call obtain s0 where su: "one_time_setup pop s = Completed s0"
    and fc: "force_computation pop s0 = Completed s'"
    by (auto simp: AddImmersedBoundaryForceContribution_def split: outcome.splits)
  from su obtain e0 others where el: "elements ?m = e0 # others"
    by (cases "elements ?m") (auto simp: one_time_setup_def Let_def)
  with four have four': "length (corner_nodes e0) = 4" by simp
  from su el four' obtain m1 m2 where 1: "TagNodeRegions ?m = Inr m1"
    and 2: "TagApicalAndBasalLengths m1 = Inr m2"
    and att: "\<forall>e \<in> set others. length (attributes e) = length (attributes e0)"
    and s0: "s0 = s\<lparr>mpMesh := Some ?p, mElementsHaveCorners := True,
                   mReferenceLocationInAttributesVector := length (attributes e0),
                   heap := (heap s)(?p := m2)\<rparr>"
    by (auto simp: one_time_setup_def Let_def split: if_splits sum.splits)
  from fc s0 have s': "s' = s0\<lparr>heap := (heap s0)(?p := m2\<lparr>nodes :=
          add_forces (total_contribution s0 (intrinsic_spacing pop * intrinsic_spacing pop) m2) (nodes m2)\<rparr>)\<rparr>"
    by (simp add: force_computation_eq split: if_splits)
  note r1 = TagNodeRegions_preserves [OF 1]
  note r2 = TagApicalAndBasalLengths_eq [OF 2]
  have els: "elements (heap s' ?p) = elements m2" by (simp add: s')
  have len: "length (elements (heap s' ?p)) = length (elements ?m)"
    using r1 r2 by (simp add: els)
  have *: "length (attributes (elements ?m ! j)) = mReferenceLocationInAttributesVector s'
         \<and> attributes (elements (heap s' ?p) ! j)
               = attributes (elements ?m ! j) @ [elem_width ?m j (elements ?m ! j), elem_width ?m j (elements ?m ! j)]"
    if j: "j < length (elements ?m)" for j
  proof -
    have "elements ?m ! j \<in> set (e0 # others)" using j el by (metis nth_mem)
    with att have "length (attributes (elements ?m ! j)) = length (attributes e0)" by auto
    moreover have "mReferenceLocationInAttributesVector s' = length (attributes e0)"
      by (simp add: s' s0)
    moreover from r1 r2 j have "elements m2 ! j = (elements ?m ! j)\<lparr>attributes := attributes (elements ?m ! j)
               @ [elem_width m1 j (elements ?m ! j), elem_width m1 j (elements ?m ! j)]\<rparr>"
      by simp
    moreover from r1 have "elem_width m1 j (elements ?m ! j) = elem_width ?m j (elements ?m ! j)"
      by (simp add: elem_width_geometry)
    ultimately show ?thesis by (simp add: els)
  qed
  have "mpMesh s' = Some ?p" by (simp add: s' s0)
  with len * show ?thesis by blast
qed

text \<open>
  Claim C5, amended. After a first call with corner tagging enabled that completes, every
  element has two more attributes: two zeros for the membrane element, and for every other
  element twice the absolute value of the first component of the periodic displacement
  from node 0 to the node at index \<open>floor(numNodes/2)\<close>, the width of the element as the
  positions were at setup (not the planar distance). The apical and basal getters return
  these stored values, also after the nodes have been changed in any way.
\<close>

theorem baseline_lengths:
  assumes none: "mpMesh s = None"
    and four: "length (corner_nodes (elements (heap s (mesh_ptr pop)) ! 0)) = 4"
    and call: "AddImmersedBoundaryForceContribution pop s = Completed s'"
    and j: "j < length (elements (heap s (mesh_ptr pop)))"
  shows "attributes (elements (heap s' (mesh_ptr pop)) ! j)
           = attributes (elements (heap s (mesh_ptr pop)) ! j)
             @ [elem_width (heap s (mesh_ptr pop)) j (elements (heap s (mesh_ptr pop)) ! j),
                elem_width (heap s (mesh_ptr pop)) j (elements (heap s (mesh_ptr pop)) ! j)]
       \<and> (j = membrane_index (heap s (mesh_ptr pop)) \<longrightarrow>
            elem_width (heap s (mesh_ptr pop)) j (elements (heap s (mesh_ptr pop)) ! j) = 0)
       \<and> (j \<noteq> membrane_index (heap s (mesh_ptr pop)) \<longrightarrow>
            elem_width (heap s (mesh_ptr pop)) j (elements (heap s (mesh_ptr pop)) ! j)
              = \<bar>fst (vector_from_a_to_b (heap s (mesh_ptr pop))
                        (location (nodes (heap s (mesh_ptr pop))
                           (node_ptrs (elements (heap s (mesh_ptr pop)) ! j) ! 0)))
                        (location (nodes (heap s (mesh_ptr pop))
                           (node_ptrs (elements (heap s (mesh_ptr pop)) ! j)
                              ! (length (node_ptrs (elements (heap s (mesh_ptr pop)) ! j)) div 2)))))\<bar>)
       \<and> (\<forall>h. GetApicalLengthForElement
                 (s'\<lparr>heap := (heap s')(mesh_ptr pop := (heap s' (mesh_ptr pop))\<lparr>nodes := h\<rparr>)\<rparr>) j
                 = Inr (elem_width (heap s (mesh_ptr pop)) j (elements (heap s (mesh_ptr pop)) ! j))
              \<and> GetBasalLengthForElement
                 (s'\<lparr>heap := (heap s')(mesh_ptr pop := (heap s' (mesh_ptr pop))\<lparr>nodes := h\<rparr>)\<rparr>) j
                 = Inr (elem_width (heap s (mesh_ptr pop)) j (elements (heap s (mesh_ptr pop)) ! j)))
       \<and> GetApicalLengthForElement s' j
            = Inr (elem_width (heap s (mesh_ptr pop)) j (elements (heap s (mesh_ptr pop)) ! j))
       \<and> GetBasalLengthForElement s' j
            = Inr (elem_width (heap s (mesh_ptr pop)) j (elements (heap s (mesh_ptr pop)) ! j))"
proof -
  let ?p = "mesh_ptr pop"
  let ?m = "heap s ?p"
  let ?w = "elem_width ?m j (elements ?m ! j)"
  from first_call_with_corners [OF none four call] j
  have p: "mpMesh s' = Some ?p" and len: "length (elements (heap s' ?p)) = length (elements ?m)"
    and ref: "length (attributes (elements ?m ! j)) = mReferenceLocationInAttributesVector s'"
    and att: "attributes (elements (heap s' ?p) ! j) = attributes (elements ?m ! j) @ [?w, ?w]"
    by simp_all
  have get: "GetApicalLengthForElement s' j = Inr ?w" "GetBasalLengthForElement s' j = Inr ?w"
    using p len j att ref [symmetric]
    by (simp_all add: GetApicalLengthForElement_def GetBasalLengthForElement_def Let_def nth_append)
  have frozen: "GetApicalLengthForElement (s'\<lparr>heap := (heap s')(?p := (heap s' ?p)\<lparr>nodes := h\<rparr>)\<rparr>) j = Inr ?w
              \<and> GetBasalLengthForElement (s'\<lparr>heap := (heap s')(?p := (heap s' ?p)\<lparr>nodes := h\<rparr>)\<rparr>) j = Inr ?w"
    for h
    using p len j att ref [symmetric]
    by (simp add: GetApicalLengthForElement_def GetBasalLengthForElement_def Let_def nth_append)
  from att get frozen show ?thesis by (simp add: elem_width_def)
qed

theorem baseline_lengths_counterexample:
  "TagApicalAndBasalLengths example_mesh
     = Inr (example_mesh\<lparr>elements :=
         [\<lparr>node_ptrs = [0, 1, 2, 3], corner_nodes = [1, 0, 3, 2], attributes = [1, 1]\<rparr>,
          \<lparr>node_ptrs = [4, 5, 6, 7], corner_nodes = [5, 4, 7, 6], attributes = [0, 0]\<rparr>]\<rparr>)
   \<and> norm_2 (vector_from_a_to_b example_mesh (location (nodes example_mesh 0))
                                              (location (nodes example_mesh 2))) = sqrt 2
   \<and> sqrt 2 \<noteq> 1"
  by (simp add: TagApicalAndBasalLengths_def tag_element_lengths_def AddElementAttribute_def
      example_mesh_def example_location_def norm_2_def Let_def)

theorem baseline_lengths_witness:
  "\<exists>s'. AddImmersedBoundaryForceContribution example_population (example_state example_mesh)
          = Completed s'
      \<and> GetApicalLengthForElement s' 0 = Inr 1 \<and> GetBasalLengthForElement s' 0 = Inr 1
      \<and> GetApicalLengthForElement s' 1 = Inr 0 \<and> GetBasalLengthForElement s' 1 = Inr 0"
proof -
  let ?s = "example_state example_mesh"
  from example_first_call obtain s'
    where c: "AddImmersedBoundaryForceContribution example_population ?s = Completed s'" ..
  have none: "mpMesh ?s = None" by (simp add: example_state_def)
  have h: "heap ?s (mesh_ptr example_population) = example_mesh" by (simp add: example_state_def)
  have four: "length (corner_nodes (elements (heap ?s (mesh_ptr example_population)) ! 0)) = 4"
    unfolding h by (simp add: example_mesh_def)
  have j: "0 < length (elements (heap ?s (mesh_ptr example_population)))"
    "1 < length (elements (heap ?s (mesh_ptr example_population)))"
    unfolding h by (simp_all add: example_mesh_def)
  have w: "elem_width example_mesh 0 (elements example_mesh ! 0) = 1"
    "elem_width example_mesh 1 (elements example_mesh ! 1) = 0"
    by (simp_all add: elem_width_def example_mesh_def example_location_def)
  note a = baseline_lengths [OF none four c j(1)] and b = baseline_lengths [OF none four c j(2)]
  from a have "GetApicalLengthForElement s' 0 = Inr 1" "GetBasalLengthForElement s' 0 = Inr 1"
    unfolding h w by blast+
  moreover from b have "GetApicalLengthForElement s' 1 = Inr 0" "GetBasalLengthForElement s' 1 = Inr 0"
    unfolding h w by blast+
  ultimately show ?thesis using c by blast
qed

end
